theory Spec2Isabelle
  imports Main "HOL-Library.Word" "HOL-Library.Multiset"
begin

section \<open>hash.c: the generic non-dynamic hash\<close>

text \<open>
  A \<^verbatim>\<open>hnode_t\<close> is \<^verbatim>\<open>{ key, data, next }\<close>. The pointers \<^verbatim>\<open>key\<close> and \<^verbatim>\<open>data\<close> are
  options (\<open>None\<close> is \<^verbatim>\<open>NULL\<close>). The \<^verbatim>\<open>next\<close> pointer is the tail of a list: the bucket
  \<^verbatim>\<open>table[i]\<close>, together with every node reachable from it through \<^verbatim>\<open>next\<close>, is the list
  \<open>table h ! i\<close>; its first element is the head node that lives inside the bucket array,
  and \<^verbatim>\<open>node->next\<close> is \<^verbatim>\<open>NULL\<close> exactly at the last element. A pointer to a node is the
  pair (bucket index, depth in the chain).
\<close>

record ('k, 'v) hnode =
  key :: "'k option"
  data :: "'v option"

type_synonym nodeptr = "nat \<times> nat"

text \<open>
  \<^verbatim>\<open>hash_t\<close>. The counters are \<^verbatim>\<open>unsigned long\<close>; every counted node occupies its own
  memory, so they cannot wrap and are natural numbers here. \<^verbatim>\<open>mallocf\<close> is not a field:
  the outcome of each allocation is an argument of the operation that allocates.
  \<open>cur_i\<close> and \<open>cur_node\<close> are the iteration cursor \<^verbatim>\<open>_i\<close> and \<^verbatim>\<open>_node\<close>.
\<close>

record ('k, 'v) hash_t =
  table :: "('k, 'v) hnode list list"
  hsize :: nat
  collisions :: nat
  count :: nat
  cmp :: "'k option \<Rightarrow> 'k option \<Rightarrow> int"
  hash :: "'k option \<Rightarrow> nat"
  cur_i :: nat
  cur_node :: "nodeptr option"

definition empty_node :: "('k, 'v) hnode" where
  "empty_node = \<lparr>key = None, data = None\<rparr>"

text \<open>\<^verbatim>\<open>hash_create\<close>: \<open>None\<close> is the \<^verbatim>\<open>NULL\<close> result. The cursor is left uninitialised by
  the code; \<^verbatim>\<open>hash_first\<close> writes both fields before they are read.\<close>

definition hash_create ::
  "bool \<Rightarrow> ('k option \<Rightarrow> 'k option \<Rightarrow> int) \<Rightarrow> ('k option \<Rightarrow> nat) \<Rightarrow> nat \<Rightarrow> ('k, 'v) hash_t option" where
  "hash_create malloc_ok cmpf hashf sz =
     (if sz = 0 then None
      else if \<not> malloc_ok then None
      else Some \<lparr>table = replicate sz [empty_node], hsize = sz, collisions = 0, count = 0,
                 cmp = cmpf, hash = hashf, cur_i = 0, cur_node = None\<rparr>)"

text \<open>The \<^verbatim>\<open>while(node->next)\<close> loop of \<^verbatim>\<open>hash_insert\<close>; \<open>j\<close> is the position of \<^verbatim>\<open>node\<close>
  in the chain. \<open>None\<close> is the \<^verbatim>\<open>return NULL\<close> inside the loop; otherwise the chain as the
  loop leaves it and the position of the last node.\<close>

function insert_loop ::
  "('k option \<Rightarrow> 'k option \<Rightarrow> int) \<Rightarrow> 'k option \<Rightarrow> 'v option \<Rightarrow> bool \<Rightarrow>
   ('k, 'v) hnode list \<Rightarrow> nat \<Rightarrow> (('k, 'v) hnode list \<times> nat) option" where
  "insert_loop cmpf k d overwrite chain j =
     (if j + 1 < length chain then
        (if cmpf k (key (chain ! j)) = 0 then
           (if overwrite then
              insert_loop cmpf k d overwrite
                (chain[j + 1 := (chain ! (j + 1))\<lparr>key := k, data := d\<rparr>]) (j + 1)
            else None)
         else insert_loop cmpf k d overwrite chain (j + 1))
      else Some (chain, j))"
  by pat_completeness auto

termination
  by (relation "measure (\<lambda>(cmpf, k, d, overwrite, chain, j). length chain - j)") auto

declare insert_loop.simps [simp del]

text \<open>\<^verbatim>\<open>hash_insert\<close> returns the node pointer (\<open>None\<close> for \<^verbatim>\<open>NULL\<close>) and the table.
  \<open>malloc_ok\<close> is the outcome of \<^verbatim>\<open>hash->mallocf\<close> should the code reach it.\<close>

definition hash_insert ::
  "('k, 'v) hash_t \<Rightarrow> 'k option \<Rightarrow> 'v option \<Rightarrow> bool \<Rightarrow> bool \<Rightarrow>
   nodeptr option \<times> ('k, 'v) hash_t" where
  "hash_insert h k d overwrite malloc_ok =
     (let i = hash h k mod hsize h; chain = table h ! i in
      if key (chain ! 0) = None then
        (Some (i, 0),
         h\<lparr>table := (table h)[i := chain[0 := (chain ! 0)\<lparr>key := k, data := d\<rparr>]],
           count := count h + 1\<rparr>)
      else
        (case insert_loop (cmp h) k d overwrite chain 0 of
           None \<Rightarrow> (None, h)
         | Some (chain', j) \<Rightarrow>
             if \<not> malloc_ok then (None, h\<lparr>table := (table h)[i := chain']\<rparr>)
             else (Some (i, j),
                   h\<lparr>table := (table h)[i := chain' @ [\<lparr>key = k, data = d\<rparr>]],
                     count := count h + 1, collisions := collisions h + 1\<rparr>)))"

text \<open>\<^verbatim>\<open>hash_search\<close>: the \<^verbatim>\<open>while(node)\<close> loop over the chain.\<close>

fun search_chain ::
  "('k option \<Rightarrow> 'k option \<Rightarrow> int) \<Rightarrow> 'k option \<Rightarrow> ('k, 'v) hnode list \<Rightarrow> 'v option" where
  "search_chain cmpf k [] = None"
| "search_chain cmpf k (n # ns) =
     (if key n = None then None
      else if cmpf k (key n) = 0 then data n
      else search_chain cmpf k ns)"

definition hash_search :: "('k, 'v) hash_t \<Rightarrow> 'k option \<Rightarrow> 'v option" where
  "hash_search h k = search_chain (cmp h) k (table h ! (hash h k mod hsize h))"

text \<open>\<^verbatim>\<open>hash_first\<close>: the \<^verbatim>\<open>for\<close> loop over \<^verbatim>\<open>_i\<close>, entered at \<open>i\<close>.\<close>

function first_scan :: "('k, 'v) hash_t \<Rightarrow> nat \<Rightarrow> nodeptr option \<times> ('k, 'v) hash_t" where
  "first_scan h i =
     (if i < hsize h then
        (if key (table h ! i ! 0) \<noteq> None
         then (Some (i, 0), h\<lparr>cur_i := i, cur_node := Some (i, 0)\<rparr>)
         else first_scan h (i + 1))
      else (None, h\<lparr>cur_i := i, cur_node := None\<rparr>))"
  by pat_completeness auto

termination
  by (relation "measure (\<lambda>(h, i). hsize h - i)") auto

declare first_scan.simps [simp del]

definition hash_first :: "('k, 'v) hash_t \<Rightarrow> nodeptr option \<times> ('k, 'v) hash_t" where
  "hash_first h = first_scan h 0"

text \<open>\<^verbatim>\<open>hash_next\<close>: the \<^verbatim>\<open>for(;;)\<close> loop, entered with \<^verbatim>\<open>_i\<close> equal to \<open>i\<close>. It leaves
  \<^verbatim>\<open>_node\<close> alone when it runs off the table.\<close>

function next_scan :: "('k, 'v) hash_t \<Rightarrow> nat \<Rightarrow> nodeptr option \<times> ('k, 'v) hash_t" where
  "next_scan h i =
     (if i \<ge> hsize h then (None, h\<lparr>cur_i := i\<rparr>)
      else if key (table h ! i ! 0) \<noteq> None
        then (Some (i, 0), h\<lparr>cur_i := i, cur_node := Some (i, 0)\<rparr>)
      else next_scan h (i + 1))"
  by pat_completeness auto

termination
  by (relation "measure (\<lambda>(h, i). hsize h - i)") auto

declare next_scan.simps [simp del]

text \<open>The outer \<open>None\<close> is the dereference of a \<^verbatim>\<open>NULL\<close> \<^verbatim>\<open>_node\<close>, which the code does not
  guard against.\<close>

definition hash_next :: "('k, 'v) hash_t \<Rightarrow> (nodeptr option \<times> ('k, 'v) hash_t) option" where
  "hash_next h =
     (case cur_node h of
        None \<Rightarrow> None
      | Some (b, d) \<Rightarrow>
          if d + 1 < length (table h ! b)
          then Some (Some (b, d + 1), h\<lparr>cur_node := Some (b, d + 1)\<rparr>)
          else Some (next_scan h (cur_i h + 1)))"

subsection \<open>Iterating over a table\<close>

text \<open>
  Modelled from the spec: iterating is \<^verbatim>\<open>hash_first\<close> followed by \<^verbatim>\<open>hash_next\<close> until it
  returns \<^verbatim>\<open>NULL\<close> (the macro \<^verbatim>\<open>HASH_WALK\<close> of \<^verbatim>\<open>hash.h\<close> is not among the sources).
  \<open>walk_loop\<close> is the repetition of \<^verbatim>\<open>hash_next\<close>; it returns the nodes visited, in order,
  and \<open>None\<close> when \<^verbatim>\<open>hash_next\<close> dereferences \<^verbatim>\<open>NULL\<close>. Each call of \<^verbatim>\<open>hash_next\<close> either
  steps down a chain or moves the bucket cursor up, so the repetition comes to an end.
\<close>

function walk_loop :: "('k, 'v) hash_t \<Rightarrow> nodeptr list option" where
  "walk_loop h =
     (case hash_next h of
        None \<Rightarrow> None
      | Some (None, h') \<Rightarrow> Some []
      | Some (Some n, h') \<Rightarrow> map_option (Cons n) (walk_loop h'))"
  by pat_completeness auto

lemma next_scan_cursor:
  "next_scan h i = (Some n, h') \<Longrightarrow>
     i \<le> cur_i h' \<and> cur_i h' < hsize h \<and> hsize h' = hsize h"
proof (induction h i rule: next_scan.induct)
  case (1 h i)
  then show ?case
    by (subst (asm) (2) next_scan.simps) (auto split: if_splits)
qed

termination walk_loop
proof (relation "inv_image (less_than <*lex*> less_than)
    (\<lambda>h. (hsize h - cur_i h,
          case cur_node h of None \<Rightarrow> 0 | Some (b, d) \<Rightarrow> length (table h ! b) - d))")
  show "wf (inv_image (less_than <*lex*> less_than)
    (\<lambda>h::('k, 'v) hash_t. (hsize h - cur_i h,
          case cur_node h of None \<Rightarrow> 0 | Some (b, d) \<Rightarrow> length (table h ! b) - d)))"
    by (intro wf_inv_image wf_lex_prod wf_less_than)
next
  fix h :: "('k, 'v) hash_t" and x2 x1 h' n
  assume a: "hash_next h = Some x2" "(x1, h') = x2" "x1 = Some n"
  then have nx: "hash_next h = Some (Some n, h')" by simp
  show "(h', h) \<in> inv_image (less_than <*lex*> less_than)
    (\<lambda>h. (hsize h - cur_i h,
          case cur_node h of None \<Rightarrow> 0 | Some (b, d) \<Rightarrow> length (table h ! b) - d))"
  proof (cases "cur_node h")
    case None
    with nx show ?thesis by (simp add: hash_next_def)
  next
    case (Some p)
    obtain b d where p: "p = (b, d)" by (cases p)
    show ?thesis
    proof (cases "d + 1 < length (table h ! b)")
      case True
      with nx Some p have "h' = h\<lparr>cur_node := Some (b, d + 1)\<rparr>"
        by (auto simp: hash_next_def)
      with True Some p show ?thesis by simp
    next
      case False
      with nx Some p have "next_scan h (cur_i h + 1) = (Some n, h')"
        by (simp add: hash_next_def)
      from next_scan_cursor[OF this]
      have "hsize h' - cur_i h' < hsize h - cur_i h" by arith
      then show ?thesis by simp
    qed
  qed
qed

declare walk_loop.simps [simp del]

text \<open>Modelled from the spec: the whole iteration, \<^verbatim>\<open>hash_first\<close> and then \<^verbatim>\<open>hash_next\<close>
  as long as a node is returned.\<close>

definition hash_walk :: "('k, 'v) hash_t \<Rightarrow> nodeptr list option" where
  "hash_walk h =
     (case hash_first h of
        (None, h') \<Rightarrow> Some []
      | (Some n, h') \<Rightarrow> map_option (Cons n) (walk_loop h'))"

subsection \<open>The tables that the operations build, and their occupied nodes\<close>

text \<open>The table after a sequence of \<^verbatim>\<open>hash_insert\<close> calls whose keys are not \<^verbatim>\<open>NULL\<close>;
  an entry is the key, the data, the \<^verbatim>\<open>overwrite\<close> flag and the outcome of the
  allocation.\<close>

fun hash_inserts ::
  "('k, 'v) hash_t \<Rightarrow> ('k \<times> 'v option \<times> bool \<times> bool) list \<Rightarrow> ('k, 'v) hash_t" where
  "hash_inserts h [] = h"
| "hash_inserts h ((k, d, overwrite, malloc_ok) # rest) =
     hash_inserts (snd (hash_insert h (Some k) d overwrite malloc_ok)) rest"

text \<open>The table after a sequence of \<^verbatim>\<open>hash_insert\<close> calls with any keys, \<^verbatim>\<open>NULL\<close> included:
  \<^verbatim>\<open>hash_insert\<close> does not look at the key before it stores it.\<close>

fun hash_insert_calls ::
  "('k, 'v) hash_t \<Rightarrow> ('k option \<times> 'v option \<times> bool \<times> bool) list \<Rightarrow> ('k, 'v) hash_t" where
  "hash_insert_calls h [] = h"
| "hash_insert_calls h ((k, d, overwrite, malloc_ok) # rest) =
     hash_insert_calls (snd (hash_insert h k d overwrite malloc_ok)) rest"

text \<open>The occupied nodes as a set of node pointers: every node of every chain, except a
  bucket head whose key is \<^verbatim>\<open>NULL\<close>.\<close>

definition occupied :: "('k, 'v) hash_t \<Rightarrow> nodeptr set" where
  "occupied h =
     {(i, d). i < hsize h \<and> d < length (table h ! i) \<and> (d = 0 \<longrightarrow> key (table h ! i ! 0) \<noteq> None)}"

subsection \<open>The invariant of the tables\<close>

text \<open>The occupied nodes of a bucket, of the table and of the buckets from \<open>i\<close> on, as
  lists in the order of the iteration.\<close>

definition bucket_nodes :: "('k, 'v) hash_t \<Rightarrow> nat \<Rightarrow> nodeptr list" where
  "bucket_nodes h i =
     (let c = table h ! i
      in map (Pair i) [(if key (c ! 0) = None then 1 else 0)..<length c])"

definition occupied_nodes :: "('k, 'v) hash_t \<Rightarrow> nodeptr list" where
  "occupied_nodes h = concat (map (bucket_nodes h) [0..<hsize h])"

text \<open>Every bucket has its head node, and a head whose key is \<^verbatim>\<open>NULL\<close> has no chain.\<close>

definition chains_ok :: "('k, 'v) hash_t \<Rightarrow> bool" where
  "chains_ok h \<longleftrightarrow>
     length (table h) = hsize h \<and>
     list_all (\<lambda>c. c \<noteq> [] \<and> (key (c ! 0) = None \<longrightarrow> length c = 1)) (table h)"

definition nodes_from :: "('k, 'v) hash_t \<Rightarrow> nat \<Rightarrow> nodeptr list" where
  "nodes_from h i = concat (map (bucket_nodes h) [i..<hsize h])"

text \<open>\<^verbatim>\<open>count\<close> is the number of occupied nodes.\<close>

definition live_nodes :: "('k, 'v) hnode list \<Rightarrow> nat" where
  "live_nodes c = length c - (if key (c ! 0) = None then 1 else 0)"

definition hash_inv :: "('k, 'v) hash_t \<Rightarrow> bool" where
  "hash_inv h \<longleftrightarrow> chains_ok h \<and> 0 < hsize h \<and> count h = sum_list (map live_nodes (table h))"

text \<open>The part of the invariant that does not depend on the keys.\<close>

definition table_ok :: "('k, 'v) hash_t \<Rightarrow> bool" where
  "table_ok h \<longleftrightarrow> chains_ok h \<and> 0 < hsize h"

subsection \<open>Example tables\<close>

text \<open>A comparator and a hash function for keys that are numbers, and the tables that
  \<^verbatim>\<open>hash_create\<close> returns for them with one and with two buckets.\<close>

definition nat_cmp :: "nat option \<Rightarrow> nat option \<Rightarrow> int" where
  "nat_cmp a b =
     (case a of
        None \<Rightarrow> (case b of None \<Rightarrow> 0 | Some y \<Rightarrow> - 1)
      | Some x \<Rightarrow> (case b of None \<Rightarrow> 1 | Some y \<Rightarrow> int x - int y))"

definition nat_hash :: "nat option \<Rightarrow> nat" where
  "nat_hash a = (case a of None \<Rightarrow> 0 | Some x \<Rightarrow> x)"

definition one_bucket :: "(nat, nat) hash_t" where
  "one_bucket = \<lparr>table = [[empty_node]], hsize = 1, collisions = 0, count = 0,
                  cmp = nat_cmp, hash = nat_hash, cur_i = 0, cur_node = None\<rparr>"

definition two_buckets :: "(nat, nat) hash_t" where
  "two_buckets = \<lparr>table = [[empty_node], [empty_node]], hsize = 2, collisions = 0, count = 0,
                  cmp = nat_cmp, hash = nat_hash, cur_i = 0, cur_node = None\<rparr>"

section \<open>ixfrcreate.c: the zone spool and the IXFR difference walk\<close>

subsection \<open>Files\<close>

type_synonym u8 = "8 word"

type_synonym u16 = "16 word"

type_synonym u32 = "32 word"

type_synonym bytes = "u8 list"

text \<open>
  Integers are written to the spool in the byte order of the host; the model fixes
  little-endian.
\<close>

definition u16_bytes :: "u16 \<Rightarrow> bytes" where
  "u16_bytes v = [of_nat (unat v mod 256), of_nat (unat v div 256)]"

definition u32_bytes :: "u32 \<Rightarrow> bytes" where
  "u32_bytes v =
     [of_nat (unat v mod 256), of_nat (unat v div 256 mod 256),
      of_nat (unat v div 65536 mod 256), of_nat (unat v div 16777216)]"

fun le_nat :: "bytes \<Rightarrow> nat" where
  "le_nat [] = 0"
| "le_nat (b # bs) = unat b + 256 * le_nat bs"

text \<open>
  A stream open for writing is the bytes written so far; a stream open for reading is
  the bytes not yet read. \<^verbatim>\<open>fwrite(p, size, 1, out)\<close> and \<^verbatim>\<open>fread(p, size, 1, in)\<close> return
  the number of items transferred, and \<open>None\<close> is the result 0. The C library returns 0
  when \<^verbatim>\<open>size\<close> is 0, and \<^verbatim>\<open>fread\<close> returns 0 when fewer than \<^verbatim>\<open>size\<close> bytes are left.
  A write of at least one byte always succeeds here: the device does not fill up.
\<close>

definition fwrite :: "bytes \<Rightarrow> bytes \<Rightarrow> bytes option" where
  "fwrite p out = (if p = [] then None else Some (out @ p))"

definition fread :: "nat \<Rightarrow> bytes \<Rightarrow> (bytes \<times> bytes) option" where
  "fread n inp =
     (if n = 0 then None
      else if length inp < n then None
      else Some (take n inp, drop n inp))"

subsection \<open>The name database, as far as the spool and the walk read it\<close>

text \<open>
  Modelled from the spec: the types of \<^verbatim>\<open>namedb.h\<close> and \<^verbatim>\<open>dname.h\<close>, which are not among
  the sources. A
  \<^verbatim>\<open>dname_type\<close> is its wire bytes (\<^verbatim>\<open>dname_name\<close>), whose number is \<^verbatim>\<open>name_size\<close>. An rdata
  atom is a union of a domain pointer and a pointer to length-prefixed data;
  \<^verbatim>\<open>rdata_atom_is_domain(type, i)\<close> tells which member is live, and the constructor
  records it: \<open>Domain n\<close> carries the name of the domain pointed to, \<open>Data d\<close> the octets
  \<^verbatim>\<open>data[1..]\<close>, of which there are \<^verbatim>\<open>data[0]\<close>. \<^verbatim>\<open>rdata_count\<close> and \<^verbatim>\<open>rr_count\<close> are the
  lengths of the lists. A zone pointer is a number.
\<close>

datatype rdata_atom = Domain bytes | Data bytes

record rr =
  ttl :: u32
  type :: u16
  klass :: u16
  rdatas :: "rdata_atom list"

record rrset =
  zone :: nat
  rrs :: "rr list"

record domain =
  domain_dname :: bytes
  rrsets :: "rrset list"

text \<open>
  Modelled from the spec: the zone walk
  \<^verbatim>\<open>for(domain = zone->apex; domain && domain_is_subdomain(domain, zone->apex); domain = domain_next(domain))\<close>
  visits the apex and then the domains below it in canonical order; \<open>below\<close> is that
  sequence after the apex. \<open>soa_serial\<close> is what \<^verbatim>\<open>zone_get_current_serial\<close> returns.
\<close>

record zone =
  zone_id :: nat
  apex :: domain
  below :: "domain list"
  soa_serial :: u32

definition zone_walk :: "zone \<Rightarrow> domain list" where
  "zone_walk z = apex z # below z"

definition zone_get_current_serial :: "zone \<Rightarrow> u32" where
  "zone_get_current_serial z = soa_serial z"

definition atom_bytes :: "rdata_atom \<Rightarrow> bytes" where
  "atom_bytes a = (case a of Domain n \<Rightarrow> n | Data d \<Rightarrow> d)"

text \<open>
  Modelled from the spec: \<^verbatim>\<open>rrset_rrtype\<close> is the type of the first RR. For an RR-set
  without RRs the code reads \<^verbatim>\<open>rrs[0]\<close> out of range; the model gives such a set no type.
\<close>

definition rrset_rrtype :: "rrset \<Rightarrow> u16 option" where
  "rrset_rrtype s = (case rrs s of [] \<Rightarrow> None | r # _ \<Rightarrow> Some (type r))"

text \<open>Modelled from the spec: \<^verbatim>\<open>domain_find_rrset\<close> returns the first RR-set of the domain
  that belongs to the zone and has the type.\<close>

fun find_rrset :: "rrset list \<Rightarrow> nat \<Rightarrow> u16 \<Rightarrow> rrset option" where
  "find_rrset [] z tp = None"
| "find_rrset (s # ss) z tp =
     (if zone s = z \<and> rrset_rrtype s = Some tp then Some s else find_rrset ss z tp)"

definition domain_find_rrset :: "domain \<Rightarrow> zone \<Rightarrow> u16 \<Rightarrow> rrset option" where
  "domain_find_rrset d z tp = find_rrset (rrsets d) (zone_id z) tp"

subsection \<open>Domain names\<close>

text \<open>Modelled from the spec: a name is at most 255 octets on the wire.\<close>

definition MAXDOMAINLEN :: nat where
  "MAXDOMAINLEN = 255"

text \<open>
  Modelled from the spec: a dname is a sequence of length-prefixed labels that ends in the
  zero-length root label. \<open>dname_labels\<close> reads the labels of the name that starts a
  buffer; \<open>None\<close> when the buffer ends first or a label is longer than 63 octets.
\<close>

function dname_labels :: "bytes \<Rightarrow> bytes list option" where
  "dname_labels [] = None"
| "dname_labels (l # rest) =
     (if l = 0 then Some []
      else if 63 < unat l \<or> length rest < unat l then None
      else (case dname_labels (drop (unat l) rest) of
              None \<Rightarrow> None
            | Some ls \<Rightarrow> Some (take (unat l) rest # ls)))"
  by pat_completeness auto

termination
  by (relation "measure length") auto

definition lower_octet :: "u8 \<Rightarrow> u8" where
  "lower_octet b = (if 65 \<le> unat b \<and> unat b \<le> 90 then b + 32 else b)"

definition labels_wire :: "bytes list \<Rightarrow> bytes" where
  "labels_wire ls = concat (map (\<lambda>l. of_nat (length l) # l) ls) @ [0]"

text \<open>
  Modelled from the spec: \<^verbatim>\<open>dname_make(region, buf, 1)\<close> builds the normalised (lower
  case) name that starts the buffer, and returns \<^verbatim>\<open>NULL\<close> when there is no well-formed
  name of at most 255 octets.
\<close>

definition dname_make :: "bytes \<Rightarrow> bytes option" where
  "dname_make buf =
     (case dname_labels buf of
        None \<Rightarrow> None
      | Some ls \<Rightarrow>
          if MAXDOMAINLEN < length (labels_wire ls) then None
          else Some (labels_wire (map (map lower_octet) ls)))"

text \<open>
  Modelled from the spec: canonical order compares label by label from the root, each
  label octet by octet in lower case, a proper prefix first. The result is negative,
  zero or positive.
\<close>

fun octets_compare :: "bytes \<Rightarrow> bytes \<Rightarrow> int" where
  "octets_compare [] [] = 0"
| "octets_compare [] (y # ys) = - 1"
| "octets_compare (x # xs) [] = 1"
| "octets_compare (x # xs) (y # ys) =
     (if unat (lower_octet x) < unat (lower_octet y) then - 1
      else if unat (lower_octet y) < unat (lower_octet x) then 1
      else octets_compare xs ys)"

fun labels_compare :: "bytes list \<Rightarrow> bytes list \<Rightarrow> int" where
  "labels_compare [] [] = 0"
| "labels_compare [] (y # ys) = - 1"
| "labels_compare (x # xs) [] = 1"
| "labels_compare (x # xs) (y # ys) =
     (if octets_compare x y = 0 then labels_compare xs ys else octets_compare x y)"

definition name_labels :: "bytes \<Rightarrow> bytes list" where
  "name_labels n = (case dname_labels n of None \<Rightarrow> [] | Some ls \<Rightarrow> ls)"

definition dname_compare :: "bytes \<Rightarrow> bytes \<Rightarrow> int" where
  "dname_compare a b = labels_compare (rev (name_labels a)) (rev (name_labels b))"

subsection \<open>Writing the spool\<close>

text \<open>The writers return the stream after the write, \<open>None\<close> for the result 0.\<close>

definition spool_u16 :: "bytes \<Rightarrow> u16 \<Rightarrow> bytes option" where
  "spool_u16 out val = fwrite (u16_bytes val) out"

definition spool_u32 :: "bytes \<Rightarrow> u32 \<Rightarrow> bytes option" where
  "spool_u32 out val = fwrite (u32_bytes val) out"

definition spool_dname :: "bytes \<Rightarrow> bytes \<Rightarrow> bytes option" where
  "spool_dname out dname =
     (let namelen = (of_nat (length dname) :: u16) in
      case fwrite (u16_bytes namelen) out of
        None \<Rightarrow> None
      | Some out1 \<Rightarrow> fwrite (take (unat namelen) dname) out1)"

fun rdatalen_loop :: "rdata_atom list \<Rightarrow> nat \<Rightarrow> nat" where
  "rdatalen_loop [] rdlen_uncompressed = rdlen_uncompressed"
| "rdatalen_loop (a # as) rdlen_uncompressed =
     rdatalen_loop as (rdlen_uncompressed + length (atom_bytes a))"

definition rr_rdatalen_uncompressed :: "rr \<Rightarrow> nat" where
  "rr_rdatalen_uncompressed r = rdatalen_loop (rdatas r) 0"

fun spool_atoms :: "bytes \<Rightarrow> rdata_atom list \<Rightarrow> bytes option" where
  "spool_atoms out [] = Some out"
| "spool_atoms out (a # as) =
     (case fwrite (atom_bytes a) out of
        None \<Rightarrow> None
      | Some out1 \<Rightarrow> spool_atoms out1 as)"

text \<open>\<^verbatim>\<open>rdlen\<close> is a \<^verbatim>\<open>uint16_t\<close>: the assignment truncates the \<^verbatim>\<open>size_t\<close> sum.\<close>

definition spool_rr_data :: "bytes \<Rightarrow> rr \<Rightarrow> bytes option" where
  "spool_rr_data out r =
     (case spool_u32 out (ttl r) of
        None \<Rightarrow> None
      | Some out1 \<Rightarrow>
          (case spool_u16 out1 (of_nat (rr_rdatalen_uncompressed r)) of
             None \<Rightarrow> None
           | Some out2 \<Rightarrow> spool_atoms out2 (rdatas r)))"

fun spool_rrs :: "bytes \<Rightarrow> rr list \<Rightarrow> bytes option" where
  "spool_rrs out [] = Some out"
| "spool_rrs out (r # rs) =
     (case spool_rr_data out r of
        None \<Rightarrow> None
      | Some out1 \<Rightarrow> spool_rrs out1 rs)"

definition spool_rrset :: "bytes \<Rightarrow> rrset \<Rightarrow> bytes option" where
  "spool_rrset out s =
     (case rrs s of
        [] \<Rightarrow> Some out
      | r0 # _ \<Rightarrow>
          (case spool_u16 out (type r0) of
             None \<Rightarrow> None
           | Some out1 \<Rightarrow>
               (case spool_u16 out1 (klass r0) of
                  None \<Rightarrow> None
                | Some out2 \<Rightarrow>
                    (case spool_u16 out2 (of_nat (length (rrs s))) of
                       None \<Rightarrow> None
                     | Some out3 \<Rightarrow> spool_rrs out3 (rrs s)))))"

fun spool_rrsets :: "bytes \<Rightarrow> rrset list \<Rightarrow> zone \<Rightarrow> bytes option" where
  "spool_rrsets out [] z = Some out"
| "spool_rrsets out (s # ss) z =
     (if zone s \<noteq> zone_id z then spool_rrsets out ss z
      else (case spool_rrset out s of
              None \<Rightarrow> None
            | Some out1 \<Rightarrow> spool_rrsets out1 ss z))"

fun count_rrsets_loop :: "rrset list \<Rightarrow> nat \<Rightarrow> nat \<Rightarrow> nat" where
  "count_rrsets_loop [] z cnt = cnt"
| "count_rrsets_loop (s # ss) z cnt =
     count_rrsets_loop ss z (if zone s = z then cnt + 1 else cnt)"

definition domain_count_rrsets :: "domain \<Rightarrow> zone \<Rightarrow> nat" where
  "domain_count_rrsets d z = count_rrsets_loop (rrsets d) (zone_id z) 0"

text \<open>The loop of \<^verbatim>\<open>spool_domains\<close> over the zone walk; \<open>cnt\<close> is the \<^verbatim>\<open>uint32_t count\<close>.\<close>

fun spool_domains_loop :: "bytes \<Rightarrow> domain list \<Rightarrow> zone \<Rightarrow> bytes option" where
  "spool_domains_loop out [] z = Some out"
| "spool_domains_loop out (d # ds) z =
     (let cnt = (of_nat (domain_count_rrsets d z) :: u32) in
      if cnt = 0 then spool_domains_loop out ds z
      else (case spool_dname out (domain_dname d) of
              None \<Rightarrow> None
            | Some out1 \<Rightarrow>
                (case spool_u32 out1 cnt of
                   None \<Rightarrow> None
                 | Some out2 \<Rightarrow>
                     (case spool_rrsets out2 (rrsets d) z of
                        None \<Rightarrow> None
                      | Some out3 \<Rightarrow> spool_domains_loop out3 ds z))))"

definition spool_domains :: "bytes \<Rightarrow> zone \<Rightarrow> bytes option" where
  "spool_domains out z =
     (case spool_domains_loop out (zone_walk z) z of
        None \<Rightarrow> None
      | Some out1 \<Rightarrow> spool_u16 out1 0)"

text \<open>
  The failures of the diff, one for each message the code logs: a short read, a name
  longer than the buffer, a header that is not the zone's, a store that is out of
  memory, a spooled name that \<^verbatim>\<open>dname_make\<close> rejects, a file that does not open, a write
  that fails.
\<close>

datatype error =
  ReadError | DnameTooLong | ApexMismatch | SerialMismatch | OutOfMemory | DnameError
  | OpenError | WriteError

text \<open>A file system maps a file name to the content of the file. \<open>fopen_ok\<close> is
  whether the file opens for writing; \<open>Inr\<close> carries the content written and closed.\<close>

definition spool_zone_to_file :: "bool \<Rightarrow> zone \<Rightarrow> u32 \<Rightarrow> error + bytes" where
  "spool_zone_to_file fopen_ok z serial =
     (if \<not> fopen_ok then Inl OpenError
      else (case spool_dname [] (domain_dname (apex z)) of
              None \<Rightarrow> Inl WriteError
            | Some out1 \<Rightarrow>
                (case spool_u32 out1 serial of
                   None \<Rightarrow> Inl WriteError
                 | Some out2 \<Rightarrow>
                     (case spool_domains out2 z of
                        None \<Rightarrow> Inl WriteError
                      | Some out3 \<Rightarrow> Inr out3))))"

text \<open>\<^verbatim>\<open>struct ixfr_create\<close>. \<^verbatim>\<open>zone_name_len\<close> is the length of \<^verbatim>\<open>zone_name\<close>.\<close>

record ixfr_create =
  zone_name :: bytes
  old_serial :: u32
  new_serial :: u32
  file_name :: string

definition zone_name_len :: "ixfr_create \<Rightarrow> nat" where
  "zone_name_len ixfrcr = length (zone_name ixfrcr)"

text \<open>\<open>pid\<close> is \<^verbatim>\<open>getpid()\<close> as \<^verbatim>\<open>%u\<close> prints it; the buffer holds 1023 characters.\<close>

definition create_ixfr_spool_name :: "string \<Rightarrow> string \<Rightarrow> string" where
  "create_ixfr_spool_name zfile pid = take 1023 (zfile @ ''.spoolzone.'' @ pid)"

text \<open>
  \<^verbatim>\<open>ixfr_create_start\<close>. The three booleans are the outcomes of \<^verbatim>\<open>calloc\<close>, \<^verbatim>\<open>malloc\<close>
  and \<^verbatim>\<open>strdup\<close>. The result is the context (\<open>None\<close> for \<^verbatim>\<open>NULL\<close>) and the file system.
  When a write fails, \<^verbatim>\<open>spool_zone_to_file\<close> returns without closing the stream: the file
  has been created or truncated by \<^verbatim>\<open>fopen\<close>, and how much of the output has reached it
  is up to the buffering of the C library. That file is not modelled: for a failed
  write the result is \<open>None\<close> with the file system as it was given. The properties below
  use \<open>ixfr_create_start\<close> only where it returns a context.
\<close>

definition ixfr_create_start ::
  "zone \<Rightarrow> string \<Rightarrow> string \<Rightarrow> bool \<Rightarrow> bool \<Rightarrow> bool \<Rightarrow> bool \<Rightarrow> (string \<Rightarrow> bytes option) \<Rightarrow>
   ixfr_create option \<times> (string \<Rightarrow> bytes option)" where
  "ixfr_create_start z zfile pid calloc_ok malloc_ok strdup_ok fopen_ok fs =
     (if \<not> calloc_ok then (None, fs)
      else if \<not> malloc_ok then (None, fs)
      else if \<not> strdup_ok then (None, fs)
      else
        (let ixfrcr = \<lparr>zone_name = domain_dname (apex z),
                       old_serial = zone_get_current_serial z,
                       new_serial = 0,
                       file_name = create_ixfr_spool_name zfile pid\<rparr> in
         case spool_zone_to_file fopen_ok z (old_serial ixfrcr) of
           Inl e \<Rightarrow> (None, fs)
         | Inr content \<Rightarrow> (Some ixfrcr, fs(file_name ixfrcr := Some content))))"

subsection \<open>Reading the spool\<close>

definition read_spool_u16 :: "bytes \<Rightarrow> (u16 \<times> bytes) option" where
  "read_spool_u16 spool =
     (case fread 2 spool of
        None \<Rightarrow> None
      | Some (b, spool1) \<Rightarrow> Some (of_nat (le_nat b), spool1))"

definition read_spool_u32 :: "bytes \<Rightarrow> (u32 \<times> bytes) option" where
  "read_spool_u32 spool =
     (case fread 4 spool of
        None \<Rightarrow> None
      | Some (b, spool1) \<Rightarrow> Some (of_nat (le_nat b), spool1))"

text \<open>
  \<^verbatim>\<open>read_spool_dname\<close> overwrites the first \<^verbatim>\<open>len\<close> octets of the caller's buffer. The
  result is the buffer, \<^verbatim>\<open>*dname_len\<close> and the stream.
\<close>

definition read_spool_dname :: "bytes \<Rightarrow> bytes \<Rightarrow> nat \<Rightarrow> error + (bytes \<times> nat \<times> bytes)" where
  "read_spool_dname spool buf buflen =
     (case read_spool_u16 spool of
        None \<Rightarrow> Inl ReadError
      | Some (len, spool1) \<Rightarrow>
          if buflen < unat len then Inl DnameTooLong
          else if 0 < unat len then
            (case fread (unat len) spool1 of
               None \<Rightarrow> Inl ReadError
             | Some (d, spool2) \<Rightarrow> Inr (d @ drop (unat len) buf, unat len, spool2))
          else Inr (buf, unat len, spool1))"

text \<open>\<^verbatim>\<open>memcmp\<close>, as far as its result is compared with 0.\<close>

definition memcmp :: "bytes \<Rightarrow> bytes \<Rightarrow> nat \<Rightarrow> int" where
  "memcmp a b n = (if take n a = take n b then 0 else 1)"

text \<open>
  \<^verbatim>\<open>read_spool_header\<close>. The buffer on the stack is not initialised in the code; only the
  octets that \<^verbatim>\<open>read_spool_dname\<close> has written are compared.
\<close>

definition read_spool_header :: "bytes \<Rightarrow> ixfr_create \<Rightarrow> error + bytes" where
  "read_spool_header spool ixfrcr =
     (case read_spool_dname spool (replicate (MAXDOMAINLEN + 1) 0) (MAXDOMAINLEN + 1) of
        Inl e \<Rightarrow> Inl e
      | Inr (dname, dname_len, spool1) \<Rightarrow>
          (case read_spool_u32 spool1 of
             None \<Rightarrow> Inl ReadError
           | Some (serial, spool2) \<Rightarrow>
               if zone_name_len ixfrcr \<noteq> dname_len \<or>
                  memcmp (zone_name ixfrcr) dname (zone_name_len ixfrcr) \<noteq> 0
               then Inl ApexMismatch
               else if old_serial ixfrcr \<noteq> serial then Inl SerialMismatch
               else Inr spool2))"

subsection \<open>The store\<close>

text \<open>
  Modelled from the spec: the store is the consumer's sink, reached through
  \<^verbatim>\<open>ixfr_store_start\<close>, \<^verbatim>\<open>ixfr_store_delrr_uncompressed\<close>, \<^verbatim>\<open>ixfr_store_addrr_rdatas\<close> and
  \<^verbatim>\<open>ixfr_store_free\<close>. It records the operations in the order of the calls. A call that
  adds an operation fails when the store is out of memory: \<open>room\<close> is the number of
  operations the store can still take. \<open>freed\<close> says that the session was destroyed.
\<close>

datatype store_op =
  DelRR bytes u16 u16 u32 bytes
  | AddRR bytes u16 u16 u32 "rdata_atom list"

record ixfr_store =
  store_old_serial :: u32
  store_new_serial :: u32
  ops :: "store_op list"
  room :: nat
  freed :: bool

definition ixfr_store_start :: "zone \<Rightarrow> nat \<Rightarrow> u32 \<Rightarrow> u32 \<Rightarrow> ixfr_store" where
  "ixfr_store_start z mem old new =
     \<lparr>store_old_serial = old, store_new_serial = new, ops = [], room = mem, freed = False\<rparr>"

definition ixfr_store_delrr_uncompressed ::
  "ixfr_store \<Rightarrow> bytes \<Rightarrow> nat \<Rightarrow> u16 \<Rightarrow> u16 \<Rightarrow> u32 \<Rightarrow> bytes \<Rightarrow> u16 \<Rightarrow> bool \<times> ixfr_store" where
  "ixfr_store_delrr_uncompressed store dname dname_len tp kl ttl0 rdata rdlen =
     (if room store = 0 then (False, store)
      else (True, store\<lparr>ops := ops store @
                            [DelRR (take dname_len dname) tp kl ttl0 (take (unat rdlen) rdata)],
                          room := room store - 1\<rparr>))"

definition ixfr_store_addrr_rdatas ::
  "ixfr_store \<Rightarrow> bytes \<Rightarrow> u16 \<Rightarrow> u16 \<Rightarrow> u32 \<Rightarrow> rdata_atom list \<Rightarrow> bool \<times> ixfr_store" where
  "ixfr_store_addrr_rdatas store dname tp kl ttl0 atoms =
     (if room store = 0 then (False, store)
      else (True, store\<lparr>ops := ops store @ [AddRR dname tp kl ttl0 atoms],
                          room := room store - 1\<rparr>))"

definition ixfr_store_free :: "ixfr_store \<Rightarrow> ixfr_store" where
  "ixfr_store_free store = store\<lparr>freed := True\<rparr>"

subsection \<open>Comparing one RR-set\<close>

text \<open>\<^verbatim>\<open>rdata_match\<close>: \<open>rdata\<close> holds the \<open>rdlen\<close> octets read from the spool.\<close>

fun rdata_match_loop :: "rdata_atom list \<Rightarrow> bytes \<Rightarrow> nat \<Rightarrow> nat \<Rightarrow> bool" where
  "rdata_match_loop [] rdata rdlen rdpos = (rdpos = rdlen)"
| "rdata_match_loop (a # as) rdata rdlen rdpos =
     (if rdlen < rdpos + length (atom_bytes a) then False
      else if memcmp (drop rdpos rdata) (atom_bytes a) (length (atom_bytes a)) \<noteq> 0 then False
      else rdata_match_loop as rdata rdlen (rdpos + length (atom_bytes a)))"

definition rdata_match :: "rr \<Rightarrow> bytes \<Rightarrow> u16 \<Rightarrow> bool" where
  "rdata_match r rdata rdlen = rdata_match_loop (rdatas r) rdata (unat rdlen) 0"

function find_rdata_loop :: "rrset \<Rightarrow> u32 \<Rightarrow> bytes \<Rightarrow> u16 \<Rightarrow> nat \<Rightarrow> nat option" where
  "find_rdata_loop s ttl0 rdata rdlen i =
     (if i < length (rrs s) then
        (if ttl (rrs s ! i) \<noteq> ttl0 then find_rdata_loop s ttl0 rdata rdlen (i + 1)
         else if rdata_match (rrs s ! i) rdata rdlen then Some i
         else find_rdata_loop s ttl0 rdata rdlen (i + 1))
      else None)"
  by pat_completeness auto

termination
  by (relation "measure (\<lambda>(s, ttl0, rdata, rdlen, i). length (rrs s) - i)") auto

declare find_rdata_loop.simps [simp del]

definition rrset_find_rdata :: "rrset \<Rightarrow> u32 \<Rightarrow> bytes \<Rightarrow> u16 \<Rightarrow> nat option" where
  "rrset_find_rdata s ttl0 rdata rdlen = find_rdata_loop s ttl0 rdata rdlen 0"

text \<open>
  The walk functions return what the code returns (\<open>Inl\<close> for 0, with the message
  logged) together with the store, which they update in place and which the caller
  still holds after a failure. The stream argument of the code is the stream of the
  iterator; the context is passed in the code for its file name in messages only.

  First loop of \<^verbatim>\<open>process_diff_rrset\<close>: the RRs of the spool, with the indexes marked so
  far.
\<close>

function diff_rrset_spool_loop ::
  "bytes \<Rightarrow> ixfr_store \<Rightarrow> domain \<Rightarrow> u16 \<Rightarrow> u16 \<Rightarrow> u16 \<Rightarrow> rrset \<Rightarrow> nat list \<Rightarrow> nat \<Rightarrow>
   (error + bytes \<times> nat list) \<times> ixfr_store" where
  "diff_rrset_spool_loop spool store d tp kl rrcount s marked i =
     (if i < unat rrcount then
        (case read_spool_u32 spool of
           None \<Rightarrow> (Inl ReadError, store)
         | Some (ttl0, spool1) \<Rightarrow>
             (case read_spool_u16 spool1 of
                None \<Rightarrow> (Inl ReadError, store)
              | Some (rdlen, spool2) \<Rightarrow>
                  (case fread (unat rdlen) spool2 of
                     None \<Rightarrow> (Inl ReadError, store)
                   | Some (buf, spool3) \<Rightarrow>
                       (case rrset_find_rdata s ttl0 buf rdlen of
                          Some index \<Rightarrow>
                            diff_rrset_spool_loop spool3 store d tp kl rrcount s
                              (marked @ [index]) (i + 1)
                        | None \<Rightarrow>
                            (case ixfr_store_delrr_uncompressed store (domain_dname d)
                                    (length (domain_dname d)) tp kl ttl0 buf rdlen of
                               (False, store1) \<Rightarrow> (Inl OutOfMemory, store1)
                             | (True, store1) \<Rightarrow>
                                 diff_rrset_spool_loop spool3 store1 d tp kl rrcount s
                                   marked (i + 1))))))
      else (Inr (spool, marked), store))"
  by pat_completeness auto

termination
  by (relation "measure (\<lambda>(spool, store, d, tp, kl, rrcount, s, marked, i). unat rrcount - i)")
    auto

declare diff_rrset_spool_loop.simps [simp del]

text \<open>Second loop of \<^verbatim>\<open>process_diff_rrset\<close>: the RRs of the zone that are not marked.\<close>

function diff_rrset_zone_loop ::
  "ixfr_store \<Rightarrow> domain \<Rightarrow> rrset \<Rightarrow> nat list \<Rightarrow> nat \<Rightarrow> (error + unit) \<times> ixfr_store" where
  "diff_rrset_zone_loop store d s marked i =
     (if i < length (rrs s) then
        (if i \<in> set marked then diff_rrset_zone_loop store d s marked (i + 1)
         else (case ixfr_store_addrr_rdatas store (domain_dname d) (type (rrs s ! i))
                      (klass (rrs s ! i)) (ttl (rrs s ! i)) (rdatas (rrs s ! i)) of
                 (False, store1) \<Rightarrow> (Inl OutOfMemory, store1)
               | (True, store1) \<Rightarrow> diff_rrset_zone_loop store1 d s marked (i + 1)))
      else (Inr (), store))"
  by pat_completeness auto

termination
  by (relation "measure (\<lambda>(store, d, s, marked, i). length (rrs s) - i)") auto

declare diff_rrset_zone_loop.simps [simp del]

definition process_diff_rrset ::
  "bytes \<Rightarrow> ixfr_store \<Rightarrow> domain \<Rightarrow> u16 \<Rightarrow> u16 \<Rightarrow> u16 \<Rightarrow> rrset \<Rightarrow> (error + bytes) \<times> ixfr_store" where
  "process_diff_rrset spool store d tp kl rrcount s =
     (case diff_rrset_spool_loop spool store d tp kl rrcount s [] 0 of
        (Inl e, store1) \<Rightarrow> (Inl e, store1)
      | (Inr (spool1, marked), store1) \<Rightarrow>
          (case diff_rrset_zone_loop store1 d s marked 0 of
             (Inl e, store2) \<Rightarrow> (Inl e, store2)
           | (Inr u, store2) \<Rightarrow> (Inr spool1, store2)))"

function process_spool_delrrset_loop ::
  "bytes \<Rightarrow> ixfr_store \<Rightarrow> bytes \<Rightarrow> nat \<Rightarrow> u16 \<Rightarrow> u16 \<Rightarrow> u16 \<Rightarrow> nat \<Rightarrow> (error + bytes) \<times> ixfr_store" where
  "process_spool_delrrset_loop spool store dname dname_len tp kl rrcount i =
     (if i < unat rrcount then
        (case read_spool_u32 spool of
           None \<Rightarrow> (Inl ReadError, store)
         | Some (ttl0, spool1) \<Rightarrow>
             (case read_spool_u16 spool1 of
                None \<Rightarrow> (Inl ReadError, store)
              | Some (rdlen, spool2) \<Rightarrow>
                  (case fread (unat rdlen) spool2 of
                     None \<Rightarrow> (Inl ReadError, store)
                   | Some (buf, spool3) \<Rightarrow>
                       (case ixfr_store_delrr_uncompressed store dname dname_len tp kl ttl0
                               buf rdlen of
                          (False, store1) \<Rightarrow> (Inl OutOfMemory, store1)
                        | (True, store1) \<Rightarrow>
                            process_spool_delrrset_loop spool3 store1 dname dname_len tp kl
                              rrcount (i + 1)))))
      else (Inr spool, store))"
  by pat_completeness auto

termination
  by (relation "measure (\<lambda>(spool, store, dname, dname_len, tp, kl, rrcount, i). unat rrcount - i)")
    auto

declare process_spool_delrrset_loop.simps [simp del]

definition process_spool_delrrset ::
  "bytes \<Rightarrow> ixfr_store \<Rightarrow> bytes \<Rightarrow> nat \<Rightarrow> u16 \<Rightarrow> u16 \<Rightarrow> u16 \<Rightarrow> (error + bytes) \<times> ixfr_store" where
  "process_spool_delrrset spool store dname dname_len tp kl rrcount =
     process_spool_delrrset_loop spool store dname dname_len tp kl rrcount 0"

fun add_rrs_loop :: "ixfr_store \<Rightarrow> domain \<Rightarrow> rr list \<Rightarrow> (error + unit) \<times> ixfr_store" where
  "add_rrs_loop store d [] = (Inr (), store)"
| "add_rrs_loop store d (r # rs) =
     (case ixfr_store_addrr_rdatas store (domain_dname d) (type r) (klass r) (ttl r) (rdatas r) of
        (False, store1) \<Rightarrow> (Inl OutOfMemory, store1)
      | (True, store1) \<Rightarrow> add_rrs_loop store1 d rs)"

definition process_add_rrset :: "ixfr_store \<Rightarrow> domain \<Rightarrow> rrset \<Rightarrow> (error + unit) \<times> ixfr_store" where
  "process_add_rrset store d s = add_rrs_loop store d (rrs s)"

subsection \<open>Comparing one domain\<close>

text \<open>\<^verbatim>\<open>process_marktypes\<close>, as a loop over the RR-set chain of the domain. The array
  \<^verbatim>\<open>marktypes\<close> of the code has 65536 entries; the list has no bound.\<close>

fun marktypes_loop ::
  "ixfr_store \<Rightarrow> zone \<Rightarrow> domain \<Rightarrow> u16 list \<Rightarrow> rrset list \<Rightarrow> (error + unit) \<times> ixfr_store" where
  "marktypes_loop store z d marktypes [] = (Inr (), store)"
| "marktypes_loop store z d marktypes (s # ss) =
     (if zone s \<noteq> zone_id z then marktypes_loop store z d marktypes ss
      else if rrset_rrtype s \<in> Some ` set marktypes then marktypes_loop store z d marktypes ss
      else (case process_add_rrset store d s of
              (Inl e, store1) \<Rightarrow> (Inl e, store1)
            | (Inr u, store1) \<Rightarrow> marktypes_loop store1 z d marktypes ss))"

definition process_marktypes ::
  "ixfr_store \<Rightarrow> zone \<Rightarrow> domain \<Rightarrow> u16 list \<Rightarrow> (error + unit) \<times> ixfr_store" where
  "process_marktypes store z d marktypes = marktypes_loop store z d marktypes (rrsets d)"

function diff_domain_loop ::
  "bytes \<Rightarrow> ixfr_store \<Rightarrow> zone \<Rightarrow> domain \<Rightarrow> u32 \<Rightarrow> u16 list \<Rightarrow> nat \<Rightarrow>
   (error + bytes \<times> u16 list) \<times> ixfr_store" where
  "diff_domain_loop spool store z d spool_type_count marktypes i =
     (if i < unat spool_type_count then
        (case read_spool_u16 spool of
           None \<Rightarrow> (Inl ReadError, store)
         | Some (tp, spool1) \<Rightarrow>
             (case read_spool_u16 spool1 of
                None \<Rightarrow> (Inl ReadError, store)
              | Some (kl, spool2) \<Rightarrow>
                  (case read_spool_u16 spool2 of
                     None \<Rightarrow> (Inl ReadError, store)
                   | Some (rrcount, spool3) \<Rightarrow>
                       (case domain_find_rrset d z tp of
                          None \<Rightarrow>
                            (case process_spool_delrrset spool3 store (domain_dname d)
                                    (length (domain_dname d)) tp kl rrcount of
                               (Inl e, store1) \<Rightarrow> (Inl e, store1)
                             | (Inr spool4, store1) \<Rightarrow>
                                 diff_domain_loop spool4 store1 z d spool_type_count
                                   marktypes (i + 1))
                        | Some s \<Rightarrow>
                            (case process_diff_rrset spool3 store d tp kl rrcount s of
                               (Inl e, store1) \<Rightarrow> (Inl e, store1)
                             | (Inr spool4, store1) \<Rightarrow>
                                 diff_domain_loop spool4 store1 z d spool_type_count
                                   (marktypes @ [tp]) (i + 1))))))
      else (Inr (spool, marktypes), store))"
  by pat_completeness auto

termination
  by (relation "measure (\<lambda>(spool, store, z, d, spool_type_count, marktypes, i).
        unat spool_type_count - i)") auto

declare diff_domain_loop.simps [simp del]

definition process_diff_domain ::
  "bytes \<Rightarrow> ixfr_store \<Rightarrow> zone \<Rightarrow> domain \<Rightarrow> (error + bytes) \<times> ixfr_store" where
  "process_diff_domain spool store z d =
     (case read_spool_u32 spool of
        None \<Rightarrow> (Inl ReadError, store)
      | Some (spool_type_count, spool1) \<Rightarrow>
          (case diff_domain_loop spool1 store z d spool_type_count [] 0 of
             (Inl e, store1) \<Rightarrow> (Inl e, store1)
           | (Inr (spool2, marktypes), store1) \<Rightarrow>
               (case process_marktypes store1 z d marktypes of
                  (Inl e, store2) \<Rightarrow> (Inl e, store2)
                | (Inr u, store2) \<Rightarrow> (Inr spool2, store2))))"

fun domain_add_loop ::
  "ixfr_store \<Rightarrow> zone \<Rightarrow> domain \<Rightarrow> rrset list \<Rightarrow> (error + unit) \<times> ixfr_store" where
  "domain_add_loop store z d [] = (Inr (), store)"
| "domain_add_loop store z d (s # ss) =
     (if zone s \<noteq> zone_id z then domain_add_loop store z d ss
      else (case process_add_rrset store d s of
              (Inl e, store1) \<Rightarrow> (Inl e, store1)
            | (Inr u, store1) \<Rightarrow> domain_add_loop store1 z d ss))"

definition process_domain_add_RRs ::
  "ixfr_store \<Rightarrow> zone \<Rightarrow> domain \<Rightarrow> (error + unit) \<times> ixfr_store" where
  "process_domain_add_RRs store z d = domain_add_loop store z d (rrsets d)"

function domain_del_loop ::
  "ixfr_store \<Rightarrow> bytes \<Rightarrow> bytes \<Rightarrow> nat \<Rightarrow> u32 \<Rightarrow> nat \<Rightarrow> (error + bytes) \<times> ixfr_store" where
  "domain_del_loop store spool dname dname_len spool_type_count i =
     (if i < unat spool_type_count then
        (case read_spool_u16 spool of
           None \<Rightarrow> (Inl ReadError, store)
         | Some (tp, spool1) \<Rightarrow>
             (case read_spool_u16 spool1 of
                None \<Rightarrow> (Inl ReadError, store)
              | Some (kl, spool2) \<Rightarrow>
                  (case read_spool_u16 spool2 of
                     None \<Rightarrow> (Inl ReadError, store)
                   | Some (rrcount, spool3) \<Rightarrow>
                       (case process_spool_delrrset spool3 store dname dname_len tp kl
                               rrcount of
                          (Inl e, store1) \<Rightarrow> (Inl e, store1)
                        | (Inr spool4, store1) \<Rightarrow>
                            domain_del_loop store1 spool4 dname dname_len spool_type_count
                              (i + 1)))))
      else (Inr spool, store))"
  by pat_completeness auto

termination
  by (relation "measure (\<lambda>(store, spool, dname, dname_len, spool_type_count, i).
        unat spool_type_count - i)") auto

declare domain_del_loop.simps [simp del]

definition process_domain_del_RRs ::
  "ixfr_store \<Rightarrow> bytes \<Rightarrow> bytes \<Rightarrow> nat \<Rightarrow> (error + bytes) \<times> ixfr_store" where
  "process_domain_del_RRs store spool dname dname_len =
     (case read_spool_u32 spool of
        None \<Rightarrow> (Inl ReadError, store)
      | Some (spool_type_count, spool1) \<Rightarrow>
          domain_del_loop store spool1 dname dname_len spool_type_count 0)"

subsection \<open>The spool dname iterator\<close>

record spool_dname_iterator =
  dname :: bytes
  dname_len :: nat
  read_first :: bool
  eof :: bool
  is_processed :: bool
  spool :: bytes
  iter_file_name :: string

text \<open>\<^verbatim>\<open>spool_dname_iter_init\<close>: \<^verbatim>\<open>memset\<close> clears the \<^verbatim>\<open>MAXDOMAINLEN+1\<close> octets of the
  buffer and the flags.\<close>

definition spool_dname_iter_init :: "bytes \<Rightarrow> string \<Rightarrow> spool_dname_iterator" where
  "spool_dname_iter_init sp fname =
     \<lparr>dname = replicate (MAXDOMAINLEN + 1) 0, dname_len = 0, read_first = False, eof = False,
      is_processed = False, spool = sp, iter_file_name = fname\<rparr>"

definition spool_dname_iter_read :: "spool_dname_iterator \<Rightarrow> error + spool_dname_iterator" where
  "spool_dname_iter_read iter =
     (case read_spool_dname (spool iter) (dname iter) (MAXDOMAINLEN + 1) of
        Inl e \<Rightarrow> Inl e
      | Inr (buf, len, sp) \<Rightarrow> Inr (iter\<lparr>dname := buf, dname_len := len, spool := sp\<rparr>))"

definition spool_dname_iter_next :: "spool_dname_iterator \<Rightarrow> error + spool_dname_iterator" where
  "spool_dname_iter_next iter =
     (if eof iter then Inr iter
      else
        (case (if \<not> read_first iter then
                 (case spool_dname_iter_read iter of
                    Inl e \<Rightarrow> Inl e
                  | Inr iter1 \<Rightarrow>
                      Inr (iter1\<lparr>eof := (if dname_len iter1 = 0 then True else eof iter1),
                                 read_first := True, is_processed := False\<rparr>))
               else Inr iter) of
           Inl e \<Rightarrow> Inl e
         | Inr iter2 \<Rightarrow>
             if \<not> is_processed iter2 then Inr iter2
             else
               (case spool_dname_iter_read iter2 of
                  Inl e \<Rightarrow> Inl e
                | Inr iter3 \<Rightarrow>
                    Inr (iter3\<lparr>eof := (if dname_len iter3 = 0 then True else eof iter3),
                               is_processed := False\<rparr>))))"

subsection \<open>Reading consumes the stream\<close>

lemma fread_shorter: "fread n f = Some (b, f') \<Longrightarrow> length f' < length f"
  by (auto simp: fread_def split: if_splits)

lemma read_spool_u16_shorter: "read_spool_u16 f = Some (v, f') \<Longrightarrow> length f' < length f"
  by (auto simp: read_spool_u16_def split: option.splits dest: fread_shorter)

lemma read_spool_u32_shorter: "read_spool_u32 f = Some (v, f') \<Longrightarrow> length f' < length f"
  by (auto simp: read_spool_u32_def split: option.splits dest: fread_shorter)

lemma read_spool_dname_shorter:
  "read_spool_dname f buf buflen = Inr (buf', n, f') \<Longrightarrow> length f' < length f"
  by (auto simp: read_spool_dname_def split: option.splits if_splits
      dest!: fread_shorter read_spool_u16_shorter)

lemma spool_dname_iter_read_shorter:
  "spool_dname_iter_read it = Inr it' \<Longrightarrow> length (spool it') < length (spool it)"
  by (auto simp: spool_dname_iter_read_def split: sum.splits dest: read_spool_dname_shorter)

lemma spool_dname_iter_next_shorter:
  "spool_dname_iter_next it = Inr it' \<Longrightarrow> length (spool it') \<le> length (spool it)"
  by (auto simp: spool_dname_iter_next_def split: if_splits sum.splits
      dest!: spool_dname_iter_read_shorter)

lemma process_spool_delrrset_loop_shorter:
  "process_spool_delrrset_loop f store n len tp kl rrcount i = (Inr f', store') \<Longrightarrow>
     length f' \<le> length f"
proof (induction f store n len tp kl rrcount i rule: process_spool_delrrset_loop.induct)
  case (1 f store n len tp kl rrcount i)
  show ?case
  proof (cases "i < unat rrcount")
    case False
    with "1.prems" show ?thesis
      by (simp add: process_spool_delrrset_loop.simps[of f store n len tp kl rrcount i])
  next
    case True
    with "1.prems" obtain ttl0 f1 rdlen f2 buf f3 store1 where
      r: "read_spool_u32 f = Some (ttl0, f1)" "read_spool_u16 f1 = Some (rdlen, f2)"
         "fread (unat rdlen) f2 = Some (buf, f3)"
         "ixfr_store_delrr_uncompressed store n len tp kl ttl0 buf rdlen = (True, store1)"
         "process_spool_delrrset_loop f3 store1 n len tp kl rrcount (i + 1) = (Inr f', store')"
      by (subst (asm) process_spool_delrrset_loop.simps)
        (auto split: option.splits prod.splits bool.splits)
    from "1.IH"[OF True r(1) refl r(2) refl r(3) refl r(4)[symmetric] _ r(5)]
    have "length f' \<le> length f3" by simp
    with read_spool_u32_shorter[OF r(1)] read_spool_u16_shorter[OF r(2)] fread_shorter[OF r(3)]
    show ?thesis by simp
  qed
qed

lemma domain_del_loop_shorter:
  "domain_del_loop store f n len cnt i = (Inr f', store') \<Longrightarrow> length f' \<le> length f"
proof (induction store f n len cnt i rule: domain_del_loop.induct)
  case (1 store f n len cnt i)
  show ?case
  proof (cases "i < unat cnt")
    case False
    with "1.prems" show ?thesis
      by (simp add: domain_del_loop.simps[of store f n len cnt i])
  next
    case True
    with "1.prems" obtain tp f1 kl f2 rrcount f3 f4 store1 where
      r: "read_spool_u16 f = Some (tp, f1)" "read_spool_u16 f1 = Some (kl, f2)"
         "read_spool_u16 f2 = Some (rrcount, f3)"
         "process_spool_delrrset f3 store n len tp kl rrcount = (Inr f4, store1)"
         "domain_del_loop store1 f4 n len cnt (i + 1) = (Inr f', store')"
      by (subst (asm) domain_del_loop.simps)
        (auto split: option.splits prod.splits sum.splits)
    from "1.IH"[OF True r(1) refl r(2) refl r(3) refl r(4)[symmetric] _ r(5)]
    have "length f' \<le> length f4" by simp
    moreover from r(4) have "length f4 \<le> length f3"
      by (simp add: process_spool_delrrset_def process_spool_delrrset_loop_shorter)
    ultimately show ?thesis
      using read_spool_u16_shorter[OF r(1)] read_spool_u16_shorter[OF r(2)]
        read_spool_u16_shorter[OF r(3)] by simp
  qed
qed

lemma process_domain_del_RRs_shorter:
  "process_domain_del_RRs store f n len = (Inr f', store') \<Longrightarrow> length f' < length f"
  by (auto simp: process_domain_del_RRs_def split: option.splits
      dest!: read_spool_u32_shorter domain_del_loop_shorter)

subsection \<open>The walk\<close>

text \<open>\<^verbatim>\<open>process_spool_before_domain\<close>: the \<^verbatim>\<open>while(!iter->eof)\<close> loop. Every turn that goes
  round again has read the RR-sets of a spooled name, so the stream gets shorter.\<close>

function process_spool_before_domain ::
  "ixfr_store \<Rightarrow> domain \<Rightarrow> spool_dname_iterator \<Rightarrow>
   (error + spool_dname_iterator) \<times> ixfr_store" where
  "process_spool_before_domain store d iter =
     (if \<not> eof iter then
        (case spool_dname_iter_next iter of
           Inl e \<Rightarrow> (Inl e, store)
         | Inr iter1 \<Rightarrow>
             if eof iter1 then (Inr iter1, store)
             else
               (case dname_make (dname iter1) of
                  None \<Rightarrow> (Inl DnameError, store)
                | Some n \<Rightarrow>
                    if dname_compare n (domain_dname d) < 0 then
                      (case process_domain_del_RRs store (spool iter1) (dname iter1)
                              (dname_len iter1) of
                         (Inl e, store1) \<Rightarrow> (Inl e, store1)
                       | (Inr sp, store1) \<Rightarrow>
                           process_spool_before_domain store1 d
                             (iter1\<lparr>spool := sp, is_processed := True\<rparr>))
                    else (Inr iter1, store)))
      else (Inr iter, store))"
  by pat_completeness auto

termination
  apply (relation "measure (\<lambda>(store, d, iter). length (spool iter))")
   apply simp
  apply (auto dest!: spool_dname_iter_next_shorter process_domain_del_RRs_shorter[OF sym])
  done

declare process_spool_before_domain.simps [simp del]

definition process_spool_for_domain ::
  "ixfr_store \<Rightarrow> zone \<Rightarrow> domain \<Rightarrow> spool_dname_iterator \<Rightarrow>
   (error + spool_dname_iterator) \<times> ixfr_store" where
  "process_spool_for_domain store z d iter =
     (case process_spool_before_domain store d iter of
        (Inl e, store1) \<Rightarrow> (Inl e, store1)
      | (Inr iter1, store1) \<Rightarrow>
          if eof iter1 then (Inr iter1, store1)
          else if dname_len iter1 \<noteq> length (domain_dname d) \<or>
                  memcmp (dname iter1) (domain_dname d) (dname_len iter1) \<noteq> 0 then
            (case process_domain_add_RRs store1 z d of
               (Inl e, store2) \<Rightarrow> (Inl e, store2)
             | (Inr u, store2) \<Rightarrow> (Inr iter1, store2))
          else
            (case process_diff_domain (spool iter1) store1 z d of
               (Inl e, store2) \<Rightarrow> (Inl e, store2)
             | (Inr sp, store2) \<Rightarrow> (Inr (iter1\<lparr>spool := sp, is_processed := True\<rparr>), store2)))"

function process_spool_remaining ::
  "ixfr_store \<Rightarrow> spool_dname_iterator \<Rightarrow> (error + spool_dname_iterator) \<times> ixfr_store" where
  "process_spool_remaining store iter =
     (if \<not> eof iter then
        (case spool_dname_iter_next iter of
           Inl e \<Rightarrow> (Inl e, store)
         | Inr iter1 \<Rightarrow>
             if eof iter1 then (Inr iter1, store)
             else
               (case process_domain_del_RRs store (spool iter1) (dname iter1) (dname_len iter1) of
                  (Inl e, store1) \<Rightarrow> (Inl e, store1)
                | (Inr sp, store1) \<Rightarrow>
                    process_spool_remaining store1 (iter1\<lparr>spool := sp, is_processed := True\<rparr>)))
      else (Inr iter, store))"
  by pat_completeness auto

termination
  apply (relation "measure (\<lambda>(store, iter). length (spool iter))")
   apply simp
  apply (auto dest!: spool_dname_iter_next_shorter process_domain_del_RRs_shorter[OF sym])
  done

declare process_spool_remaining.simps [simp del]

text \<open>The \<^verbatim>\<open>for\<close> loop of \<^verbatim>\<open>ixfr_create_walk_zone\<close> over the zone walk; \<open>cnt\<close> is the
  \<^verbatim>\<open>uint32_t count\<close>.\<close>

fun walk_zone_loop ::
  "ixfr_store \<Rightarrow> zone \<Rightarrow> domain list \<Rightarrow> spool_dname_iterator \<Rightarrow>
   (error + spool_dname_iterator) \<times> ixfr_store" where
  "walk_zone_loop store z [] iter = (Inr iter, store)"
| "walk_zone_loop store z (d # ds) iter =
     (let cnt = (of_nat (domain_count_rrsets d z) :: u32) in
      if cnt = 0 then walk_zone_loop store z ds iter
      else (case process_spool_for_domain store z d iter of
              (Inl e, store1) \<Rightarrow> (Inl e, store1)
            | (Inr iter1, store1) \<Rightarrow> walk_zone_loop store1 z ds iter1))"

text \<open>\<^verbatim>\<open>ixfr_create_walk_zone\<close> from a state of its loop on: the domains still to visit,
  then \<^verbatim>\<open>process_spool_remaining\<close>.\<close>

definition walk_zone_rest ::
  "ixfr_store \<Rightarrow> zone \<Rightarrow> domain list \<Rightarrow> spool_dname_iterator \<Rightarrow> (error + unit) \<times> ixfr_store" where
  "walk_zone_rest store z ds iter =
     (case walk_zone_loop store z ds iter of
        (Inl e, store1) \<Rightarrow> (Inl e, store1)
      | (Inr iter1, store1) \<Rightarrow>
          (case process_spool_remaining store1 iter1 of
             (Inl e, store2) \<Rightarrow> (Inl e, store2)
           | (Inr iter2, store2) \<Rightarrow> (Inr (), store2)))"

definition ixfr_create_walk_zone ::
  "bytes \<Rightarrow> ixfr_create \<Rightarrow> ixfr_store \<Rightarrow> zone \<Rightarrow> (error + unit) \<times> ixfr_store" where
  "ixfr_create_walk_zone sp ixfrcr store z =
     walk_zone_rest store z (zone_walk z) (spool_dname_iter_init sp (file_name ixfrcr))"

text \<open>
  \<^verbatim>\<open>ixfr_create_perform\<close>. \<open>fs\<close> is the file system, \<open>mem\<close> the room of the store that
  \<^verbatim>\<open>ixfr_store_start\<close> hands out. The result is what the code returns, the context (it
  writes \<^verbatim>\<open>new_serial\<close>) and the store session, \<open>None\<close> when none was started.
\<close>

definition ixfr_create_perform ::
  "ixfr_create \<Rightarrow> zone \<Rightarrow> (string \<Rightarrow> bytes option) \<Rightarrow> nat \<Rightarrow>
   (error + unit) \<times> ixfr_create \<times> ixfr_store option" where
  "ixfr_create_perform ixfrcr z fs mem =
     (case fs (file_name ixfrcr) of
        None \<Rightarrow> (Inl OpenError, ixfrcr, None)
      | Some sp \<Rightarrow>
          (case read_spool_header sp ixfrcr of
             Inl e \<Rightarrow> (Inl e, ixfrcr, None)
           | Inr sp1 \<Rightarrow>
               (let ixfrcr1 = ixfrcr\<lparr>new_serial := zone_get_current_serial z\<rparr>;
                    store = ixfr_store_start z mem (old_serial ixfrcr1) (new_serial ixfrcr1)
                in case ixfr_create_walk_zone sp1 ixfrcr1 store z of
                     (Inl e, store1) \<Rightarrow> (Inl e, ixfrcr1, Some (ixfr_store_free store1))
                   | (Inr u, store1) \<Rightarrow> (Inr (), ixfrcr1, Some (ixfr_store_free store1)))))"

subsection \<open>What the claims call the content of a zone and of a diff\<close>

text \<open>
  After the words of the specification: an RR is the tuple of owner, type, class, TTL and
  uncompressed rdata; the content of a zone is the RRs of the RR-sets of the zone at the
  domains of its walk; the deletes and the adds of a diff are the RRs of the delete and
  the add operations handed to the store.
\<close>

type_synonym rr_tuple = "bytes \<times> u16 \<times> u16 \<times> u32 \<times> bytes"

definition spec_rr :: "bytes \<Rightarrow> rr \<Rightarrow> rr_tuple" where
  "spec_rr owner r = (owner, type r, klass r, ttl r, concat (map atom_bytes (rdatas r)))"

definition spec_domain_rrs :: "zone \<Rightarrow> domain \<Rightarrow> rr_tuple list" where
  "spec_domain_rrs z d =
     concat (map (\<lambda>s. map (spec_rr (domain_dname d)) (rrs s))
       (filter (\<lambda>s. zone s = zone_id z) (rrsets d)))"

definition spec_zone_rrs :: "zone \<Rightarrow> rr_tuple list" where
  "spec_zone_rrs z = concat (map (spec_domain_rrs z) (zone_walk z))"

fun spec_deletes :: "store_op list \<Rightarrow> rr_tuple list" where
  "spec_deletes [] = []"
| "spec_deletes (DelRR owner tp kl t rd # rest) = (owner, tp, kl, t, rd) # spec_deletes rest"
| "spec_deletes (AddRR owner tp kl t atoms # rest) = spec_deletes rest"

fun spec_adds :: "store_op list \<Rightarrow> rr_tuple list" where
  "spec_adds [] = []"
| "spec_adds (DelRR owner tp kl t rd # rest) = spec_adds rest"
| "spec_adds (AddRR owner tp kl t atoms # rest) =
     (owner, tp, kl, t, concat (map atom_bytes atoms)) # spec_adds rest"

subsection \<open>Example zones\<close>

text \<open>The names \<^verbatim>\<open>a.\<close> and \<^verbatim>\<open>b.a.\<close> on the wire, two SOA records that differ in their
  rdata, an address record, and a record without rdata.\<close>

definition ex_apex :: bytes where
  "ex_apex = [1, 97, 0]"

definition ex_sub :: bytes where
  "ex_sub = [1, 98, 1, 97, 0]"

definition ex_soa1 :: rr where
  "ex_soa1 = \<lparr>ttl = 3600, type = 6, klass = 1, rdatas = [Data [1]]\<rparr>"

definition ex_soa2 :: rr where
  "ex_soa2 = \<lparr>ttl = 3600, type = 6, klass = 1, rdatas = [Data [2]]\<rparr>"

definition ex_a :: rr where
  "ex_a = \<lparr>ttl = 300, type = 1, klass = 1, rdatas = [Data [1, 2, 3, 4]]\<rparr>"

text \<open>The old zone holds the first SOA at the apex; the new zone holds the second SOA at
  the apex and the address record at \<^verbatim>\<open>b.a.\<close> (the first seed scenario of the
  specification).\<close>

definition ex_old_zone :: zone where
  "ex_old_zone =
     \<lparr>zone_id = 1,
      apex = \<lparr>domain_dname = ex_apex, rrsets = [\<lparr>zone = 1, rrs = [ex_soa1]\<rparr>]\<rparr>,
      below = [], soa_serial = 1\<rparr>"

definition ex_new_zone :: zone where
  "ex_new_zone =
     \<lparr>zone_id = 1,
      apex = \<lparr>domain_dname = ex_apex, rrsets = [\<lparr>zone = 1, rrs = [ex_soa2]\<rparr>]\<rparr>,
      below = [\<lparr>domain_dname = ex_sub, rrsets = [\<lparr>zone = 1, rrs = [ex_a]\<rparr>]\<rparr>],
      soa_serial = 2\<rparr>"

text \<open>A zone whose apex has the SOA RR-set and a second RR-set of the zone without RRs.\<close>

definition ex_gap_zone :: zone where
  "ex_gap_zone =
     \<lparr>zone_id = 1,
      apex = \<lparr>domain_dname = ex_apex,
              rrsets = [\<lparr>zone = 1, rrs = [ex_soa1]\<rparr>, \<lparr>zone = 1, rrs = []\<rparr>]\<rparr>,
      below = [], soa_serial = 1\<rparr>"

text \<open>A zone that has nothing at its apex: every RR of a spool is a deletion against it.\<close>

definition ex_bare_zone :: zone where
  "ex_bare_zone =
     \<lparr>zone_id = 1, apex = \<lparr>domain_dname = ex_apex, rrsets = []\<rparr>, below = [], soa_serial = 2\<rparr>"

definition ex_ctx :: ixfr_create where
  "ex_ctx = \<lparr>zone_name = ex_apex, old_serial = 1, new_serial = 0,
             file_name = ''zone.spoolzone.1''\<rparr>"

definition no_files :: "string \<Rightarrow> bytes option" where
  "no_files name = None"

text \<open>The spool of the old zone, and the spool of the zone with the empty RR-set.\<close>

definition ex_old_spool :: bytes where
  "ex_old_spool =
     [3, 0, 1, 97, 0, 1, 0, 0, 0,
      3, 0, 1, 97, 0, 1, 0, 0, 0, 6, 0, 1, 0, 1, 0, 16, 14, 0, 0, 1, 0, 1,
      0, 0]"

definition ex_gap_spool :: bytes where
  "ex_gap_spool =
     [3, 0, 1, 97, 0, 1, 0, 0, 0,
      3, 0, 1, 97, 0, 2, 0, 0, 0, 6, 0, 1, 0, 1, 0, 16, 14, 0, 0, 1, 0, 1,
      0, 0]"

text \<open>A spool with the header of the old zone and one further owner, whose length field
  is 256: 256 octets of name, one RR-set (type 6, class 1) of one RR (TTL 3600, one octet
  of rdata), and the end marker.\<close>

definition ex_long_spool :: bytes where
  "ex_long_spool =
     [3, 0, 1, 97, 0, 1, 0, 0, 0] @ [0, 1] @ replicate 256 1 @
     [1, 0, 0, 0, 6, 0, 1, 0, 1, 0, 16, 14, 0, 0, 1, 0, 9] @ [0, 0]"

text \<open>A record without rdata, as an APL record with no address prefixes is, in a zone
  next to the SOA, and the spool of that zone.\<close>

definition ex_nordata :: rr where
  "ex_nordata = \<lparr>ttl = 60, type = 42, klass = 1, rdatas = []\<rparr>"

definition ex_nordata_zone :: zone where
  "ex_nordata_zone =
     \<lparr>zone_id = 1,
      apex = \<lparr>domain_dname = ex_apex,
              rrsets = [\<lparr>zone = 1, rrs = [ex_soa1]\<rparr>, \<lparr>zone = 1, rrs = [ex_nordata]\<rparr>]\<rparr>,
      below = [], soa_serial = 1\<rparr>"

definition ex_nordata_spool :: bytes where
  "ex_nordata_spool =
     [3, 0, 1, 97, 0, 1, 0, 0, 0,
      3, 0, 1, 97, 0, 2, 0, 0, 0, 6, 0, 1, 0, 1, 0, 16, 14, 0, 0, 1, 0, 1,
      42, 0, 1, 0, 1, 0, 60, 0, 0, 0, 0, 0,
      0, 0]"

text \<open>Calling \<^verbatim>\<open>spool_dname_iter_next\<close> \<open>n\<close> times in a row, for the statements about
  every subsequent call.\<close>

fun iter_next_times :: "nat \<Rightarrow> spool_dname_iterator \<Rightarrow> error + spool_dname_iterator" where
  "iter_next_times 0 iter = Inr iter"
| "iter_next_times (Suc n) iter =
     (case spool_dname_iter_next iter of
        Inl e \<Rightarrow> Inl e
      | Inr iter1 \<Rightarrow> iter_next_times n iter1)"

definition ex_iter_eof :: spool_dname_iterator where
  "ex_iter_eof =
     \<lparr>dname = replicate 256 0, dname_len = 0, read_first = True, eof = True,
      is_processed = True, spool = [], iter_file_name = ''zone.spoolzone.1''\<rparr>"

definition ex_iter_buffered :: spool_dname_iterator where
  "ex_iter_buffered =
     \<lparr>dname = [1, 97, 0] @ replicate 253 0, dname_len = 3, read_first = True, eof = False,
      is_processed = False, spool = [1, 0, 0, 0], iter_file_name = ''zone.spoolzone.1''\<rparr>"

definition ex_iter_done :: spool_dname_iterator where
  "ex_iter_done =
     \<lparr>dname = [1, 97, 0] @ replicate 253 0, dname_len = 3, read_first = True, eof = False,
      is_processed = True, spool = [0, 0], iter_file_name = ''zone.spoolzone.1''\<rparr>"

section \<open>Properties of the hash\<close>

subsection \<open>The iteration visits the occupied nodes in order\<close>

lemma nodes_from_step:
  "i < hsize h \<Longrightarrow> nodes_from h i = bucket_nodes h i @ nodes_from h (Suc i)"
  by (simp add: nodes_from_def upt_conv_Cons)

lemma nodes_from_end: "hsize h \<le> i \<Longrightarrow> nodes_from h i = []"
  by (simp add: nodes_from_def)

lemma bucket_nodes_empty_head:
  "chains_ok h \<Longrightarrow> i < hsize h \<Longrightarrow> key (table h ! i ! 0) = None \<Longrightarrow> bucket_nodes h i = []"
  by (auto simp: chains_ok_def bucket_nodes_def list_all_length)

lemma bucket_nodes_full_head:
  "chains_ok h \<Longrightarrow> i < hsize h \<Longrightarrow> key (table h ! i ! 0) \<noteq> None \<Longrightarrow>
     bucket_nodes h i = (i, 0) # map (Pair i) [1..<length (table h ! i)]"
  by (auto simp: chains_ok_def bucket_nodes_def list_all_length upt_conv_Cons)

lemma next_scan_nodes:
  "chains_ok h \<Longrightarrow>
   (case next_scan h i of
      (None, h') \<Rightarrow> nodes_from h i = []
    | (Some n, h') \<Rightarrow>
        (\<exists>j. n = (j, 0) \<and> j < hsize h \<and> h' = h\<lparr>cur_i := j, cur_node := Some (j, 0)\<rparr> \<and>
             key (table h ! j ! 0) \<noteq> None \<and> nodes_from h i = nodes_from h j))"
proof (induction h i rule: next_scan.induct)
  case (1 h i)
  show ?case
  proof (cases "hsize h \<le> i")
    case True
    then show ?thesis by (simp add: nodes_from_end next_scan.simps[of h i])
  next
    case False
    note inside = this
    show ?thesis
    proof (cases "key (table h ! i ! 0) = None")
      case True
      from inside True have step: "next_scan h i = next_scan h (i + 1)"
        by (simp add: next_scan.simps[of h i])
      from inside True "1.prems"
      have "nodes_from h i = nodes_from h (i + 1)"
        by (simp add: nodes_from_step bucket_nodes_empty_head)
      with "1.IH"[OF inside _ "1.prems"] True step show ?thesis
        by (auto split: prod.splits option.splits)
    next
      case False
      with inside show ?thesis by (simp add: next_scan.simps[of h i])
    qed
  qed
qed

lemma first_scan_nodes:
  "chains_ok h \<Longrightarrow>
   (case first_scan h i of
      (None, h') \<Rightarrow> nodes_from h i = []
    | (Some n, h') \<Rightarrow>
        (\<exists>j. n = (j, 0) \<and> j < hsize h \<and> h' = h\<lparr>cur_i := j, cur_node := Some (j, 0)\<rparr> \<and>
             key (table h ! j ! 0) \<noteq> None \<and> nodes_from h i = nodes_from h j))"
proof (induction h i rule: first_scan.induct)
  case (1 h i)
  show ?case
  proof (cases "i < hsize h")
    case False
    then show ?thesis by (simp add: nodes_from_end first_scan.simps[of h i])
  next
    case True
    note inside = this
    show ?thesis
    proof (cases "key (table h ! i ! 0) = None")
      case True
      from inside True have step: "first_scan h i = first_scan h (i + 1)"
        by (simp add: first_scan.simps[of h i])
      from inside True "1.prems"
      have "nodes_from h i = nodes_from h (i + 1)"
        by (simp add: nodes_from_step bucket_nodes_empty_head)
      with "1.IH"[OF inside _ "1.prems"] True step show ?thesis
        by (auto split: prod.splits option.splits)
    next
      case False
      with inside show ?thesis by (simp add: first_scan.simps[of h i])
    qed
  qed
qed

lemma chains_ok_cursor [simp]:
  "chains_ok (h\<lparr>cur_i := i\<rparr>) = chains_ok h"
  "chains_ok (h\<lparr>cur_node := n\<rparr>) = chains_ok h"
  by (simp_all add: chains_ok_def)

lemma bucket_nodes_cursor [simp]:
  "bucket_nodes (h\<lparr>cur_i := i\<rparr>) = bucket_nodes h"
  "bucket_nodes (h\<lparr>cur_node := n\<rparr>) = bucket_nodes h"
  by (simp_all add: bucket_nodes_def fun_eq_iff)

lemma nodes_from_cursor [simp]:
  "nodes_from (h\<lparr>cur_i := i\<rparr>) j = nodes_from h j"
  "nodes_from (h\<lparr>cur_node := n\<rparr>) j = nodes_from h j"
  by (simp_all add: nodes_from_def)

lemma walk_loop_nodes:
  "chains_ok h \<Longrightarrow> cur_node h = Some (b, d) \<Longrightarrow> cur_i h = b \<Longrightarrow> b < hsize h \<Longrightarrow>
   d < length (table h ! b) \<Longrightarrow>
   walk_loop h = Some (map (Pair b) [Suc d..<length (table h ! b)] @ nodes_from h (Suc b))"
proof (induction h arbitrary: b d rule: walk_loop.induct)
  case (1 h)
  show ?case
  proof (cases "d + 1 < length (table h ! b)")
    case True
    let ?h' = "h\<lparr>cur_node := Some (b, d + 1)\<rparr>"
    from True "1.prems" have nx: "hash_next h = Some (Some (b, d + 1), ?h')"
      by (simp add: hash_next_def)
    from "1.prems" True
    have "walk_loop ?h' = Some (map (Pair b) [Suc (d + 1)..<length (table ?h' ! b)] @ nodes_from ?h' (Suc b))"
      by (intro "1.IH"[OF nx refl refl]) simp_all
    with nx True show ?thesis
      by (subst walk_loop.simps) (simp add: upt_conv_Cons)
  next
    case False
    with "1.prems" have nx: "hash_next h = Some (next_scan h (Suc b))"
      by (simp add: hash_next_def)
    from False "1.prems" have nil: "[Suc d..<length (table h ! b)] = []" by simp
    obtain r h' where sc: "next_scan h (Suc b) = (r, h')" by (cases "next_scan h (Suc b)")
    show ?thesis
    proof (cases r)
      case None
      with next_scan_nodes[OF "1.prems"(1), of "Suc b"] sc
      have "nodes_from h (Suc b) = []" by simp
      with nx sc None nil show ?thesis
        by (subst walk_loop.simps) simp
    next
      case (Some n)
      with next_scan_nodes[OF "1.prems"(1), of "Suc b"] sc
      obtain j where j: "n = (j, 0)" "j < hsize h" "h' = h\<lparr>cur_i := j, cur_node := Some (j, 0)\<rparr>"
        "key (table h ! j ! 0) \<noteq> None" "nodes_from h (Suc b) = nodes_from h j"
        by auto
      from "1.prems"(1) j(2) have len: "0 < length (table h ! j)"
        by (auto simp: chains_ok_def list_all_length)
      from nx sc Some have nx': "hash_next h = Some (Some n, h')" by simp
      have "walk_loop h' = Some (map (Pair j) [Suc 0..<length (table h' ! j)] @ nodes_from h' (Suc j))"
        using "1.prems"(1) j len by (intro "1.IH"[OF nx' refl refl]) simp_all
      moreover have "nodes_from h j = (j, 0) # map (Pair j) [Suc 0..<length (table h ! j)] @ nodes_from h (Suc j)"
        using "1.prems"(1) j by (simp add: nodes_from_step bucket_nodes_full_head)
      ultimately show ?thesis using nx' nil j
        by (subst walk_loop.simps) simp
    qed
  qed
qed

lemma hash_walk_nodes: "chains_ok h \<Longrightarrow> hash_walk h = Some (occupied_nodes h)"
proof -
  assume ok: "chains_ok h"
  obtain r h' where sc: "first_scan h 0 = (r, h')" by (cases "first_scan h 0")
  have occ: "occupied_nodes h = nodes_from h 0"
    by (simp add: occupied_nodes_def nodes_from_def)
  show ?thesis
  proof (cases r)
    case None
    with first_scan_nodes[OF ok, of 0] sc show ?thesis
      by (simp add: hash_walk_def hash_first_def occ)
  next
    case (Some n)
    with first_scan_nodes[OF ok, of 0] sc
    obtain j where j: "n = (j, 0)" "j < hsize h" "h' = h\<lparr>cur_i := j, cur_node := Some (j, 0)\<rparr>"
        "key (table h ! j ! 0) \<noteq> None" "nodes_from h 0 = nodes_from h j"
      by auto
    from ok j(2) have len: "0 < length (table h ! j)"
      by (auto simp: chains_ok_def list_all_length)
    have "walk_loop h' = Some (map (Pair j) [Suc 0..<length (table h' ! j)] @ nodes_from h' (Suc j))"
      using ok j len by (intro walk_loop_nodes) simp_all
    moreover have "nodes_from h j = (j, 0) # map (Pair j) [Suc 0..<length (table h ! j)] @ nodes_from h (Suc j)"
      using ok j by (simp add: nodes_from_step bucket_nodes_full_head)
    ultimately show ?thesis using sc Some j
      by (simp add: hash_walk_def hash_first_def occ)
  qed
qed

lemma nodes_from_distinct:
  "distinct (nodes_from h i) \<and> (\<forall>p \<in> set (nodes_from h i). i \<le> fst p)"
proof (induction "hsize h - i" arbitrary: i)
  case 0
  then show ?case by (simp add: nodes_from_end)
next
  case (Suc m)
  then have lt: "i < hsize h" and m: "m = hsize h - Suc i" by simp_all
  from Suc.hyps(1)[OF m]
  have ih: "distinct (nodes_from h (Suc i))" "\<forall>p \<in> set (nodes_from h (Suc i)). Suc i \<le> fst p"
    by simp_all
  have bd: "distinct (bucket_nodes h i)"
    by (simp add: bucket_nodes_def Let_def distinct_map inj_on_def)
  have bf: "\<forall>p \<in> set (bucket_nodes h i). fst p = i"
    by (auto simp: bucket_nodes_def Let_def)
  from ih bd bf show ?case
    by (fastforce simp: nodes_from_step[OF lt])
qed

lemma distinct_occupied_nodes: "distinct (occupied_nodes h)"
  using nodes_from_distinct[of h 0] by (simp add: occupied_nodes_def nodes_from_def)

lemma set_bucket_nodes:
  "set (bucket_nodes h i) =
     {(b, d). b = i \<and> d < length (table h ! i) \<and> (d = 0 \<longrightarrow> key (table h ! i ! 0) \<noteq> None)}"
  by (auto simp: bucket_nodes_def Let_def)

lemma set_occupied_nodes: "set (occupied_nodes h) = occupied h"
  by (auto simp: occupied_nodes_def occupied_def set_bucket_nodes)

lemma length_bucket_nodes: "length (bucket_nodes h i) = live_nodes (table h ! i)"
  by (simp add: bucket_nodes_def live_nodes_def Let_def)

lemma length_occupied_nodes:
  "length (table h) = hsize h \<Longrightarrow> length (occupied_nodes h) = sum_list (map live_nodes (table h))"
proof -
  assume len: "length (table h) = hsize h"
  have "length (occupied_nodes h) = sum_list (map (\<lambda>i. live_nodes (table h ! i)) [0..<hsize h])"
    by (simp add: occupied_nodes_def length_concat comp_def length_bucket_nodes)
  also have "map (\<lambda>i. live_nodes (table h ! i)) [0..<hsize h] = map live_nodes (map ((!) (table h)) [0..<length (table h)])"
    by (simp add: len)
  also have "\<dots> = map live_nodes (table h)"
    by (simp only: map_nth)
  finally show ?thesis .
qed

subsection \<open>The operations keep the invariant\<close>

lemma sum_list_map_update:
  "i < length xs \<Longrightarrow>
     sum_list (map f (xs[i := y])) + f (xs ! i) = sum_list (map f xs) + (f y :: nat)"
proof (induction xs arbitrary: i)
  case Nil
  then show ?case by simp
next
  case (Cons x xs)
  then show ?case by (cases i) auto
qed

lemma insert_loop_shape:
  "insert_loop cmpf k d overwrite chain j = Some (chain', j') \<Longrightarrow>
     length chain' = length chain \<and> chain' ! 0 = chain ! 0"
proof (induction cmpf k d overwrite chain j rule: insert_loop.induct)
  case (1 cmpf k d overwrite chain j)
  show ?case
  proof (cases "j + 1 < length chain")
    case False
    with "1.prems" show ?thesis by (simp add: insert_loop.simps[of _ _ _ _ chain j])
  next
    case True
    note more = this
    show ?thesis
    proof (cases "cmpf k (key (chain ! j)) = 0")
      case False
      with more "1.prems" have "insert_loop cmpf k d overwrite chain (j + 1) = Some (chain', j')"
        by (simp add: insert_loop.simps[of _ _ _ _ chain j])
      from "1.IH"(2)[OF more False this] show ?thesis .
    next
      case True
      note eq = this
      show ?thesis
      proof (cases overwrite)
        case False
        with more eq "1.prems" show ?thesis by (simp add: insert_loop.simps[of _ _ _ _ chain j])
      next
        case True
        let ?c = "chain[j + 1 := (chain ! (j + 1))\<lparr>key := k, data := d\<rparr>]"
        from True more eq "1.prems" have "insert_loop cmpf k d overwrite ?c (j + 1) = Some (chain', j')"
          by (simp add: insert_loop.simps[of _ _ _ _ chain j])
        from "1.IH"(1)[OF more eq True this] show ?thesis by simp
      qed
    qed
  qed
qed

lemma chains_ok_bucket:
  "chains_ok h \<Longrightarrow> i < hsize h \<Longrightarrow>
     table h ! i \<noteq> [] \<and> (key (table h ! i ! 0) = None \<longrightarrow> length (table h ! i) = 1)"
  by (auto simp: chains_ok_def list_all_length)

lemma chains_ok_update:
  "chains_ok h \<Longrightarrow> i < hsize h \<Longrightarrow> c \<noteq> [] \<Longrightarrow> (key (c ! 0) = None \<longrightarrow> length c = 1) \<Longrightarrow>
     table h' = (table h)[i := c] \<Longrightarrow> hsize h' = hsize h \<Longrightarrow> chains_ok h'"
  by (auto simp: chains_ok_def list_all_length nth_list_update)

lemma hash_insert_inv:
  assumes inv: "hash_inv h"
  shows "hash_inv (snd (hash_insert h (Some k) d overwrite malloc_ok))"
proof -
  let ?i = "hash h (Some k) mod hsize h"
  let ?chain = "table h ! ?i"
  from inv have ok: "chains_ok h" and pos: "0 < hsize h"
    and cnt: "count h = sum_list (map live_nodes (table h))"
    by (simp_all add: hash_inv_def)
  from pos have i: "?i < hsize h" by simp
  from ok have len: "length (table h) = hsize h" by (simp add: chains_ok_def)
  from chains_ok_bucket[OF ok i]
  have ne: "?chain \<noteq> []" and single: "key (?chain ! 0) = None \<longrightarrow> length ?chain = 1"
    by simp_all
  show ?thesis
  proof (cases "key (?chain ! 0) = None")
    case True
    let ?c = "?chain[0 := (?chain ! 0)\<lparr>key := Some k, data := d\<rparr>]"
    let ?h' = "h\<lparr>table := (table h)[?i := ?c], count := count h + 1\<rparr>"
    from True have res: "snd (hash_insert h (Some k) d overwrite malloc_ok) = ?h'"
      by (simp add: hash_insert_def Let_def)
    from ne have c0: "?c \<noteq> []" "key (?c ! 0) \<noteq> None" by simp_all
    from c0 have "chains_ok ?h'"
      by (intro chains_ok_update[OF ok i, of ?c]) auto
    moreover from True single ne have "live_nodes ?chain = 0" "live_nodes ?c = 1"
      by (simp_all add: live_nodes_def)
    with sum_list_map_update[of ?i "table h" live_nodes ?c] i len cnt
    have "count ?h' = sum_list (map live_nodes (table ?h'))" by simp
    ultimately show ?thesis using pos res by (simp add: hash_inv_def)
  next
    case False
    note full = this
    show ?thesis
    proof (cases "insert_loop (cmp h) (Some k) d overwrite ?chain 0")
      case None
      with full have "snd (hash_insert h (Some k) d overwrite malloc_ok) = h"
        by (auto simp: hash_insert_def Let_def)
      with inv show ?thesis by simp
    next
      case (Some r)
      obtain chain' j where r: "r = (chain', j)" by (cases r)
      from insert_loop_shape[of "cmp h" "Some k" d overwrite ?chain 0 chain' j] Some r
      have shape: "length chain' = length ?chain" "chain' ! 0 = ?chain ! 0" by simp_all
      with ne have ne': "chain' \<noteq> []" by auto
      from shape have live: "live_nodes chain' = live_nodes ?chain" by (simp add: live_nodes_def)
      show ?thesis
      proof (cases malloc_ok)
        case False
        let ?h' = "h\<lparr>table := (table h)[?i := chain']\<rparr>"
        from False full Some r have res: "snd (hash_insert h (Some k) d overwrite malloc_ok) = ?h'"
          by (auto simp: hash_insert_def Let_def)
        from ne' shape full have "chains_ok ?h'"
          by (intro chains_ok_update[OF ok i, of chain']) auto
        moreover from sum_list_map_update[of ?i "table h" live_nodes chain'] i len cnt live
        have "count ?h' = sum_list (map live_nodes (table ?h'))" by simp
        ultimately show ?thesis using pos res by (simp add: hash_inv_def)
      next
        case True
        let ?c = "chain' @ [\<lparr>key = Some k, data = d\<rparr>]"
        let ?h' = "h\<lparr>table := (table h)[?i := ?c], count := count h + 1, collisions := collisions h + 1\<rparr>"
        from True full Some r have res: "snd (hash_insert h (Some k) d overwrite malloc_ok) = ?h'"
          by (auto simp: hash_insert_def Let_def)
        from ne' have c0: "?c ! 0 = chain' ! 0" by (simp add: nth_append)
        with shape full have "chains_ok ?h'"
          by (intro chains_ok_update[OF ok i, of ?c]) auto
        moreover from c0 shape full have "live_nodes ?c = live_nodes ?chain + 1"
          by (auto simp: live_nodes_def)
        with sum_list_map_update[of ?i "table h" live_nodes ?c] i len cnt
        have "count ?h' = sum_list (map live_nodes (table ?h'))" by simp
        ultimately show ?thesis using pos res by (simp add: hash_inv_def)
      qed
    qed
  qed
qed

lemma hash_create_inv: "hash_create malloc_ok cmpf hashf sz = Some h \<Longrightarrow> hash_inv h"
  by (auto simp: hash_create_def hash_inv_def chains_ok_def live_nodes_def empty_node_def
      list_all_length sum_list_replicate split: if_splits)

lemma hash_inserts_inv: "hash_inv h \<Longrightarrow> hash_inv (hash_inserts h ins)"
  by (induction h ins rule: hash_inserts.induct) (simp_all add: hash_insert_inv)

lemma hash_insert_table_ok:
  assumes tok: "table_ok h"
  shows "table_ok (snd (hash_insert h k d overwrite malloc_ok))"
proof -
  let ?i = "hash h k mod hsize h"
  let ?chain = "table h ! ?i"
  from tok have ok: "chains_ok h" and pos: "0 < hsize h"
    by (simp_all add: table_ok_def)
  from pos have i: "?i < hsize h" by simp
  from chains_ok_bucket[OF ok i]
  have ne: "?chain \<noteq> []" and single: "key (?chain ! 0) = None \<longrightarrow> length ?chain = 1"
    by simp_all
  show ?thesis
  proof (cases "key (?chain ! 0) = None")
    case True
    let ?c = "?chain[0 := (?chain ! 0)\<lparr>key := k, data := d\<rparr>]"
    let ?h' = "h\<lparr>table := (table h)[?i := ?c], count := count h + 1\<rparr>"
    from True have res: "snd (hash_insert h k d overwrite malloc_ok) = ?h'"
      by (simp add: hash_insert_def Let_def)
    from ne True single have "?c \<noteq> []" "length ?c = 1" by simp_all
    then have "chains_ok ?h'"
      by (intro chains_ok_update[OF ok i, of ?c]) auto
    with pos res show ?thesis by (simp add: table_ok_def)
  next
    case False
    note full = this
    show ?thesis
    proof (cases "insert_loop (cmp h) k d overwrite ?chain 0")
      case None
      with full have "snd (hash_insert h k d overwrite malloc_ok) = h"
        by (auto simp: hash_insert_def Let_def)
      with tok show ?thesis by simp
    next
      case (Some r)
      obtain chain' j where r: "r = (chain', j)" by (cases r)
      from insert_loop_shape[of "cmp h" k d overwrite ?chain 0 chain' j] Some r
      have shape: "length chain' = length ?chain" "chain' ! 0 = ?chain ! 0" by simp_all
      with ne have ne': "chain' \<noteq> []" by auto
      show ?thesis
      proof (cases malloc_ok)
        case False
        let ?h' = "h\<lparr>table := (table h)[?i := chain']\<rparr>"
        from False full Some r have res: "snd (hash_insert h k d overwrite malloc_ok) = ?h'"
          by (auto simp: hash_insert_def Let_def)
        from ne' shape full have "chains_ok ?h'"
          by (intro chains_ok_update[OF ok i, of chain']) auto
        with pos res show ?thesis by (simp add: table_ok_def)
      next
        case True
        let ?c = "chain' @ [\<lparr>key = k, data = d\<rparr>]"
        let ?h' = "h\<lparr>table := (table h)[?i := ?c], count := count h + 1, collisions := collisions h + 1\<rparr>"
        from True full Some r have res: "snd (hash_insert h k d overwrite malloc_ok) = ?h'"
          by (auto simp: hash_insert_def Let_def)
        from ne' have c0: "?c ! 0 = chain' ! 0" by (simp add: nth_append)
        with shape full have "chains_ok ?h'"
          by (intro chains_ok_update[OF ok i, of ?c]) auto
        with pos res show ?thesis by (simp add: table_ok_def)
      qed
    qed
  qed
qed

lemma hash_insert_calls_table_ok: "table_ok h \<Longrightarrow> table_ok (hash_insert_calls h ins)"
  by (induction h ins rule: hash_insert_calls.induct) (simp_all add: hash_insert_table_ok)

lemma hash_insert_calls_inv:
  "hash_inv h \<Longrightarrow> list_all (\<lambda>(k, d, overwrite, malloc_ok). k \<noteq> None) ins \<Longrightarrow>
     hash_inv (hash_insert_calls h ins)"
proof (induction h ins rule: hash_insert_calls.induct)
  case (1 h)
  then show ?case by simp
next
  case (2 h k d overwrite malloc_ok rest)
  from "2.prems"(2) obtain k' where k: "k = Some k'" by auto
  from "2.prems"(1) have "hash_inv (snd (hash_insert h (Some k') d overwrite malloc_ok))"
    by (rule hash_insert_inv)
  with "2.IH" "2.prems"(2) k show ?case by simp
qed

lemma hash_create_table_ok: "hash_create malloc_ok cmpf hashf sz = Some h \<Longrightarrow> table_ok h"
  using hash_create_inv[of malloc_ok cmpf hashf sz h] by (simp add: table_ok_def hash_inv_def)

subsection \<open>The example tables\<close>

lemma one_bucket_created: "hash_create True nat_cmp nat_hash 1 = Some one_bucket"
  by (simp add: hash_create_def one_bucket_def)

lemma two_buckets_created: "hash_create True nat_cmp nat_hash 2 = Some two_buckets"
  by (simp add: hash_create_def two_buckets_def numeral_2_eq_2)

subsection \<open>The claims about the hash\<close>

text \<open>
  Claim C8 as stated: for every table, \<^verbatim>\<open>hash_first\<close> followed by \<^verbatim>\<open>hash_next\<close> until \<^verbatim>\<open>NULL\<close>
  visits every occupied node exactly once, and the number of visits is the table's
  \<^verbatim>\<open>count\<close>. \<^verbatim>\<open>hash_insert\<close> takes a \<^verbatim>\<open>NULL\<close> key: at an empty bucket head it stores the
  key, raises \<^verbatim>\<open>count\<close> and returns the node. The head still has a \<^verbatim>\<open>NULL\<close> key, so
  \<^verbatim>\<open>hash_first\<close> passes over it: in the one-bucket table after this one insert,
  \<^verbatim>\<open>count\<close> is 1 and the iteration visits no node.
\<close>

theorem null_key_is_counted_and_not_visited:
  "hash_create True nat_cmp nat_hash 1 = Some one_bucket \<and>
   hash_insert one_bucket None (Some 1) False True =
     (Some (0, 0), one_bucket\<lparr>table := [[\<lparr>key = None, data = Some 1\<rparr>]], count := 1\<rparr>) \<and>
   hash_walk (hash_insert_calls one_bucket [(None, Some 1, False, True)]) = Some [] \<and>
   occupied (hash_insert_calls one_bucket [(None, Some 1, False, True)]) = {} \<and>
   count (hash_insert_calls one_bucket [(None, Some 1, False, True)]) = 1 \<and>
   \<not> (\<exists>ns. hash_walk (hash_insert_calls one_bucket [(None, Some 1, False, True)]) = Some ns \<and>
          distinct ns \<and>
          set ns = occupied (hash_insert_calls one_bucket [(None, Some 1, False, True)]) \<and>
          length ns = count (hash_insert_calls one_bucket [(None, Some 1, False, True)]))"
proof -
  let ?h = "hash_insert_calls one_bucket [(None, Some 1, False, True)]"
  have ins: "hash_insert one_bucket None (Some 1) False True =
     (Some (0, 0), one_bucket\<lparr>table := [[\<lparr>key = None, data = Some 1\<rparr>]], count := 1\<rparr>)"
    by (simp add: one_bucket_def hash_insert_def Let_def empty_node_def nat_hash_def)
  have h: "?h = one_bucket\<lparr>table := [[\<lparr>key = None, data = Some 1\<rparr>]], count := 1\<rparr>"
    by (simp add: one_bucket_def hash_insert_def Let_def empty_node_def nat_hash_def)
  have walk: "hash_walk ?h = Some []"
    unfolding h by (simp add: one_bucket_def hash_walk_def hash_first_def first_scan.simps)
  have occ: "occupied ?h = {}"
    unfolding h by (auto simp: one_bucket_def occupied_def)
  have cnt: "count ?h = 1"
    unfolding h by (simp add: one_bucket_def)
  from walk cnt have "\<not> (\<exists>ns. hash_walk ?h = Some ns \<and> distinct ns \<and> set ns = occupied ?h \<and>
      length ns = count ?h)"
    by auto
  with ins walk occ cnt one_bucket_created show ?thesis by blast
qed

text \<open>
  Claim C8, with the condition on the keys stated. For every table that \<^verbatim>\<open>hash_create\<close>
  and any sequence of \<^verbatim>\<open>hash_insert\<close> calls can build, \<^verbatim>\<open>hash_first\<close> followed by
  \<^verbatim>\<open>hash_next\<close> until \<^verbatim>\<open>NULL\<close> returns, and visits every occupied node (the bucket heads
  whose key is not \<^verbatim>\<open>NULL\<close> and all chain links) exactly once, whatever the keys were.
  If no call had a \<^verbatim>\<open>NULL\<close> key, the number of visits is the table's \<^verbatim>\<open>count\<close>.
\<close>

theorem hash_walk_visits_occupied_nodes:
  assumes "hash_create True cmpf hashf sz = Some h0" and "h = hash_insert_calls h0 ins"
  shows "\<exists>ns. hash_walk h = Some ns \<and> distinct ns \<and> set ns = occupied h \<and>
           (list_all (\<lambda>(k, d, overwrite, malloc_ok). k \<noteq> None) ins \<longrightarrow> length ns = count h)"
proof -
  from assms have "table_ok h" by (simp add: hash_create_table_ok hash_insert_calls_table_ok)
  then have ok: "chains_ok h" by (simp add: table_ok_def)
  then have len: "length (table h) = hsize h" by (simp add: chains_ok_def)
  have "length (occupied_nodes h) = count h"
    if keys: "list_all (\<lambda>(k, d, overwrite, malloc_ok). k \<noteq> None) ins"
  proof -
    from assms keys have "hash_inv h" by (simp add: hash_create_inv hash_insert_calls_inv)
    then have "count h = sum_list (map live_nodes (table h))" by (simp add: hash_inv_def)
    with len show ?thesis by (simp add: length_occupied_nodes)
  qed
  with hash_walk_nodes[OF ok] distinct_occupied_nodes[of h] set_occupied_nodes[of h]
  show ?thesis by blast
qed

text \<open>Three keys in two buckets: 4 and 6 chain in the first bucket, 7 is the head of the
  second.\<close>

lemma walk_example:
  "hash_walk (hash_insert_calls two_buckets
      [(Some 4, Some 1, False, True), (Some 6, Some 2, False, True), (Some 7, Some 3, False, True)]) =
     Some [(0, 0), (0, 1), (1, 0)] \<and>
   count (hash_insert_calls two_buckets
      [(Some 4, Some 1, False, True), (Some 6, Some 2, False, True), (Some 7, Some 3, False, True)]) = 3"
  by (simp add: two_buckets_def hash_insert_def Let_def insert_loop.simps empty_node_def
      nat_cmp_def nat_hash_def hash_walk_def hash_first_def first_scan.simps hash_next_def
      next_scan.simps walk_loop.simps)

theorem hash_walk_visits_occupied_nodes_witness:
  "hash_create True nat_cmp nat_hash 2 = Some two_buckets \<and>
   list_all (\<lambda>(k, d, overwrite, malloc_ok). k \<noteq> None)
     [(Some 4, Some 1, False, True), (Some 6, Some 2, False, True),
      (Some (7 :: nat), Some (3 :: nat), False, True)] \<and>
   hash_walk (hash_insert_calls two_buckets
      [(Some 4, Some 1, False, True), (Some 6, Some 2, False, True), (Some 7, Some 3, False, True)]) =
     Some [(0, 0), (0, 1), (1, 0)] \<and>
   count (hash_insert_calls two_buckets
      [(Some 4, Some 1, False, True), (Some 6, Some 2, False, True), (Some 7, Some 3, False, True)]) = 3 \<and>
   (\<exists>ns. hash_walk (hash_insert_calls two_buckets
            [(Some 4, Some 1, False, True), (Some 6, Some 2, False, True), (Some 7, Some 3, False, True)]) = Some ns \<and>
      distinct ns \<and>
      set ns = occupied (hash_insert_calls two_buckets
            [(Some 4, Some 1, False, True), (Some 6, Some 2, False, True), (Some 7, Some 3, False, True)]) \<and>
      length ns = count (hash_insert_calls two_buckets
            [(Some 4, Some 1, False, True), (Some 6, Some 2, False, True), (Some 7, Some 3, False, True)]))"
proof -
  have keys: "list_all (\<lambda>(k, d, overwrite, malloc_ok). k \<noteq> None)
     [(Some 4, Some 1, False, True), (Some 6, Some 2, False, True),
      (Some (7 :: nat), Some (3 :: nat), False, True)]"
    by simp
  from hash_walk_visits_occupied_nodes[OF two_buckets_created refl,
      of "[(Some 4, Some 1, False, True), (Some 6, Some 2, False, True), (Some 7, Some 3, False, True)]"]
    keys two_buckets_created walk_example
  show ?thesis by blast
qed

text \<open>
  Claim C3 says that an insert with \<^verbatim>\<open>overwrite\<close> set, of a key that is already stored,
  replaces key and value of the matched node in place, leaves \<^verbatim>\<open>count\<close> and
  \<^verbatim>\<open>collisions\<close> alone, and makes a later search return the new value. The code does
  otherwise. In a one-bucket table holding only 5 with value 1, inserting 5 with value 9
  and \<^verbatim>\<open>overwrite\<close> set appends a second node: \<^verbatim>\<open>count\<close> becomes 2 and a search for 5
  still returns 1. In a one-bucket table holding 5 (head, value 1) and 6 (link, value 2),
  the same insert writes through \<^verbatim>\<open>node->next\<close>, so it replaces the entry of 6, then
  walks on and appends a further node: \<^verbatim>\<open>count\<close> becomes 3, \<^verbatim>\<open>collisions\<close> 2, a search
  for 5 still returns 1 and 6 is gone.
\<close>

theorem hash_insert_overwrite_misses_node:
  "hash_create True nat_cmp nat_hash 1 = Some one_bucket \<and>
   (case hash_insert (hash_inserts one_bucket [(5, Some 1, False, True)]) (Some 5) (Some 9) True True of
      (r, h') \<Rightarrow>
        table h' = [[\<lparr>key = Some 5, data = Some 1\<rparr>, \<lparr>key = Some 5, data = Some 9\<rparr>]] \<and>
        count h' = 2 \<and> collisions h' = 1 \<and> hash_search h' (Some 5) = Some 1) \<and>
   table (hash_inserts one_bucket [(5, Some 1, False, True), (6, Some 2, False, True)]) =
     [[\<lparr>key = Some 5, data = Some 1\<rparr>, \<lparr>key = Some 6, data = Some 2\<rparr>]] \<and>
   count (hash_inserts one_bucket [(5, Some 1, False, True), (6, Some 2, False, True)]) = 2 \<and>
   collisions (hash_inserts one_bucket [(5, Some 1, False, True), (6, Some 2, False, True)]) = 1 \<and>
   (case hash_insert (hash_inserts one_bucket [(5, Some 1, False, True), (6, Some 2, False, True)])
           (Some 5) (Some 9) True True of
      (r, h') \<Rightarrow>
        r = Some (0, 1) \<and>
        table h' = [[\<lparr>key = Some 5, data = Some 1\<rparr>, \<lparr>key = Some 5, data = Some 9\<rparr>,
                     \<lparr>key = Some 5, data = Some 9\<rparr>]] \<and>
        count h' = 3 \<and> collisions h' = 2 \<and>
        hash_search h' (Some 5) = Some 1 \<and> hash_search h' (Some 6) = None)"
  by (simp add: hash_create_def one_bucket_def hash_insert_def hash_search_def Let_def
      insert_loop.simps empty_node_def nat_cmp_def nat_hash_def)

text \<open>
  Claim C4 says that an insert without \<^verbatim>\<open>overwrite\<close> of a key that is already stored,
  at the bucket head or anywhere in the chain, returns \<^verbatim>\<open>NULL\<close> and leaves the value and
  \<^verbatim>\<open>count\<close> unchanged. The loop \<^verbatim>\<open>while(node->next)\<close> never compares the key of the
  last node of a chain: with 5 stored alone at the head of a one-bucket table, inserting
  5 again without \<^verbatim>\<open>overwrite\<close> returns the head node, appends a second node for 5 and
  raises \<^verbatim>\<open>count\<close> to 2.
\<close>

theorem hash_insert_duplicate_at_chain_end:
  "hash_create True nat_cmp nat_hash 1 = Some one_bucket \<and>
   table (hash_inserts one_bucket [(5, Some 1, False, True)]) = [[\<lparr>key = Some 5, data = Some 1\<rparr>]] \<and>
   count (hash_inserts one_bucket [(5, Some 1, False, True)]) = 1 \<and>
   (case hash_insert (hash_inserts one_bucket [(5, Some 1, False, True)]) (Some 5) (Some 9) False True of
      (r, h') \<Rightarrow>
        r = Some (0, 0) \<and>
        table h' = [[\<lparr>key = Some 5, data = Some 1\<rparr>, \<lparr>key = Some 5, data = Some 9\<rparr>]] \<and>
        count h' = 2 \<and> collisions h' = 1 \<and> hash_search h' (Some 5) = Some 1)"
  by (simp add: hash_create_def one_bucket_def hash_insert_def hash_search_def Let_def
      insert_loop.simps empty_node_def nat_cmp_def nat_hash_def)

section \<open>Properties of the spool and the walk\<close>

subsection \<open>Failure of the diff\<close>

text \<open>
  Claim C5. Whenever \<^verbatim>\<open>ixfr_create_perform\<close> returns failure, whatever the cause, no store
  session is left open or committed: either none was started (the spool did not open or
  its header was rejected), or the session was handed to \<^verbatim>\<open>ixfr_store_free\<close>.
\<close>

theorem perform_failure_destroys_session:
  assumes "ixfr_create_perform ixfrcr z fs mem = (Inl e, ixfrcr', session)"
  shows "case session of None \<Rightarrow> True | Some store \<Rightarrow> freed store"
proof (cases "fs (file_name ixfrcr)")
  case None
  with assms show ?thesis by (simp add: ixfr_create_perform_def)
next
  case (Some sp)
  show ?thesis
  proof (cases "read_spool_header sp ixfrcr")
    case (Inl e')
    with Some assms show ?thesis by (simp add: ixfr_create_perform_def)
  next
    case (Inr sp1)
    with Some assms show ?thesis
      by (auto simp: ixfr_create_perform_def ixfr_store_free_def Let_def
          split: prod.splits sum.splits)
  qed
qed

subsection \<open>The header check\<close>

lemma read_spool_dname_length:
  "read_spool_dname sp buf buflen = Inr (buf', n, sp') \<Longrightarrow> length buf = buflen \<Longrightarrow>
     n \<le> buflen \<and> length buf' = buflen"
  by (auto simp: read_spool_dname_def fread_def split: option.splits if_splits)

lemma header_check:
  assumes "length buf = MAXDOMAINLEN + 1" and "n \<le> MAXDOMAINLEN + 1"
  shows "(zone_name_len ixfrcr \<noteq> n \<or> memcmp (zone_name ixfrcr) buf (zone_name_len ixfrcr) \<noteq> 0)
         = (take n buf \<noteq> zone_name ixfrcr)"
proof (cases "zone_name_len ixfrcr = n")
  case True
  then show ?thesis by (auto simp: memcmp_def zone_name_len_def)
next
  case False
  from assms have "length (take n buf) = n" by simp
  with False have "take n buf \<noteq> zone_name ixfrcr"
    by (metis zone_name_len_def)
  with False show ?thesis by simp
qed

text \<open>
  Claim C9. \<^verbatim>\<open>ixfr_create_perform\<close> reads the header first. When the apex on the spool is
  not, octet for octet, the zone name of the context, or the serial on the spool is not
  the old serial of the context, it fails with the mismatch error, and it has then
  started no store session and has not touched the context: no diff processing has taken
  place.
\<close>

theorem perform_rejects_header_mismatch:
  assumes "fs (file_name ixfrcr) = Some sp"
    and "read_spool_dname sp (replicate (MAXDOMAINLEN + 1) 0) (MAXDOMAINLEN + 1) = Inr (buf, n, sp1)"
    and "read_spool_u32 sp1 = Some (serial, sp2)"
    and "take n buf \<noteq> zone_name ixfrcr \<or> serial \<noteq> old_serial ixfrcr"
  shows "ixfr_create_perform ixfrcr z fs mem =
           (Inl (if take n buf \<noteq> zone_name ixfrcr then ApexMismatch else SerialMismatch),
            ixfrcr, None)"
proof -
  from read_spool_dname_length[OF assms(2)]
  have "n \<le> MAXDOMAINLEN + 1" and "length buf = MAXDOMAINLEN + 1" by simp_all
  from header_check[OF this(2) this(1), of ixfrcr] assms(2,3,4)
  have "read_spool_header sp ixfrcr =
          Inl (if take n buf \<noteq> zone_name ixfrcr then ApexMismatch else SerialMismatch)"
    by (auto simp: read_spool_header_def)
  with assms(1) show ?thesis by (simp add: ixfr_create_perform_def)
qed

subsection \<open>The iterator\<close>

lemma iter_next_times_idle:
  "spool_dname_iter_next it = Inr it \<Longrightarrow> iter_next_times n it = Inr it"
  by (induction n) simp_all

text \<open>
  Claim C10. Once the iterator has read a zero-length name its \<^verbatim>\<open>eof\<close> flag is set; with
  \<^verbatim>\<open>eof\<close> set, \<^verbatim>\<open>spool_dname_iter_next\<close> returns success and leaves the iterator as it is
  (flags, buffered name and stream position), so the flag stays set over any number of
  calls; and while a name is buffered and not processed, it returns success and leaves
  the iterator as it is, too, however often it is called.
\<close>

theorem spool_dname_iter_next_idle:
  "(eof it \<longrightarrow> spool_dname_iter_next it = Inr it \<and> iter_next_times n it = Inr it) \<and>
   (read_first it \<and> \<not> is_processed it \<longrightarrow>
      spool_dname_iter_next it = Inr it \<and> iter_next_times n it = Inr it) \<and>
   (\<not> eof it \<and> (\<not> read_first it \<or> is_processed it) \<and> read_spool_u16 (spool it) = Some (0, sp) \<longrightarrow>
      (\<exists>it'. spool_dname_iter_next it = Inr it' \<and> eof it' \<and> read_first it' \<and>
             dname_len it' = 0 \<and> dname it' = dname it \<and> spool it' = sp \<and>
             iter_next_times n it' = Inr it'))"
proof (intro conjI impI)
  assume "eof it"
  then show e: "spool_dname_iter_next it = Inr it" by (simp add: spool_dname_iter_next_def)
  then show "iter_next_times n it = Inr it" by (rule iter_next_times_idle)
next
  assume "read_first it \<and> \<not> is_processed it"
  then show u: "spool_dname_iter_next it = Inr it" by (simp add: spool_dname_iter_next_def)
  then show "iter_next_times n it = Inr it" by (rule iter_next_times_idle)
next
  assume a: "\<not> eof it \<and> (\<not> read_first it \<or> is_processed it) \<and> read_spool_u16 (spool it) = Some (0, sp)"
  then have rd: "spool_dname_iter_read it = Inr (it\<lparr>dname := dname it, dname_len := 0, spool := sp\<rparr>)"
    by (simp add: spool_dname_iter_read_def read_spool_dname_def)
  have idle: "\<And>it'. eof it' \<Longrightarrow> iter_next_times n it' = Inr it'"
    by (rule iter_next_times_idle) (simp add: spool_dname_iter_next_def)
  show "\<exists>it'. spool_dname_iter_next it = Inr it' \<and> eof it' \<and> read_first it' \<and>
             dname_len it' = 0 \<and> dname it' = dname it \<and> spool it' = sp \<and>
             iter_next_times n it' = Inr it'"
  proof (cases "read_first it")
    case False
    with a rd have "spool_dname_iter_next it =
        Inr (it\<lparr>dname := dname it, dname_len := 0, spool := sp, eof := True, read_first := True,
                is_processed := False\<rparr>)"
      by (simp add: spool_dname_iter_next_def)
    then show ?thesis by (simp add: idle)
  next
    case True
    with a rd have "spool_dname_iter_next it =
        Inr (it\<lparr>dname := dname it, dname_len := 0, spool := sp, eof := True, is_processed := False\<rparr>)"
      by (simp add: spool_dname_iter_next_def)
    with True show ?thesis by (simp add: idle)
  qed
qed

subsection \<open>Names longer than the buffer\<close>

lemma read_spool_dname_too_long:
  "read_spool_u16 sp = Some (len, sp1) \<Longrightarrow> buflen < unat len \<Longrightarrow>
     read_spool_dname sp buf buflen = Inl DnameTooLong"
  by (simp add: read_spool_dname_def)

lemma iter_next_too_long:
  assumes "read_spool_u16 (spool it) = Some (len, sp1)" and "MAXDOMAINLEN + 1 < unat len"
    and "\<not> eof it" and "\<not> read_first it \<or> is_processed it"
  shows "spool_dname_iter_next it = Inl DnameTooLong"
proof -
  from assms(1,2) have "spool_dname_iter_read it = Inl DnameTooLong"
    by (simp add: spool_dname_iter_read_def read_spool_dname_too_long)
  with assms(3,4) show ?thesis
    by (auto simp: spool_dname_iter_next_def)
qed

lemma walk_zone_rest_too_long:
  assumes "read_spool_u16 (spool it) = Some (len, sp1)" and "MAXDOMAINLEN + 1 < unat len"
    and "\<not> eof it" and "\<not> read_first it \<or> is_processed it"
  shows "walk_zone_rest store z ds it = (Inl DnameTooLong, store)"
proof (induction ds)
  case Nil
  from assms have "spool_dname_iter_next it = Inl DnameTooLong"
    by (rule iter_next_too_long)
  with assms(3) have "process_spool_remaining store it = (Inl DnameTooLong, store)"
    by (subst process_spool_remaining.simps) simp
  then show ?case by (simp add: walk_zone_rest_def)
next
  case (Cons d ds)
  show ?case
  proof (cases "(of_nat (domain_count_rrsets d z) :: u32) = 0")
    case True
    with Cons show ?thesis by (simp add: walk_zone_rest_def)
  next
    case False
    from assms have "spool_dname_iter_next it = Inl DnameTooLong"
      by (rule iter_next_too_long)
    with assms(3) have "process_spool_before_domain store d it = (Inl DnameTooLong, store)"
      by (subst process_spool_before_domain.simps) simp
    then have "process_spool_for_domain store z d it = (Inl DnameTooLong, store)"
      by (simp add: process_spool_for_domain_def)
    with False show ?thesis by (simp add: walk_zone_rest_def)
  qed
qed

text \<open>
  Claim C7, amended. The buffer that takes a spooled name has \<^verbatim>\<open>MAXDOMAINLEN+1\<close>, that
  is 256, octets, and \<^verbatim>\<open>read_spool_dname\<close> rejects a length field that exceeds the buffer.
  Wherever the diff reads a name whose length field exceeds 256, the read fails and the
  diff aborts. In the header, \<^verbatim>\<open>ixfr_create_perform\<close> fails before a store session
  exists. In the iterator, the step fails, and with it the catch-up loop, the processing
  of the domain, the loop over the remaining names and the rest of the walk, whatever
  domains are still to visit; when it is the first name after the header,
  \<^verbatim>\<open>ixfr_create_perform\<close> fails with the session destroyed. In general a walk that fails
  makes \<^verbatim>\<open>ixfr_create_perform\<close> fail with the session destroyed.
\<close>

theorem oversize_dname_aborts_diff:
  assumes "read_spool_u16 sp = Some (len, sp1)" and "MAXDOMAINLEN + 1 < unat len"
  shows "read_spool_dname sp buf (MAXDOMAINLEN + 1) = Inl DnameTooLong \<and>
         read_spool_header sp ixfrcr = Inl DnameTooLong \<and>
         (fs (file_name ixfrcr) = Some sp \<longrightarrow>
            ixfr_create_perform ixfrcr z fs mem = (Inl DnameTooLong, ixfrcr, None)) \<and>
         (spool it = sp \<and> \<not> eof it \<and> (\<not> read_first it \<or> is_processed it) \<longrightarrow>
            spool_dname_iter_next it = Inl DnameTooLong \<and>
            process_spool_before_domain store d it = (Inl DnameTooLong, store) \<and>
            process_spool_for_domain store z d it = (Inl DnameTooLong, store) \<and>
            process_spool_remaining store it = (Inl DnameTooLong, store) \<and>
            walk_zone_rest store z ds it = (Inl DnameTooLong, store)) \<and>
         (fs (file_name ixfrcr) = Some sp0 \<and> read_spool_header sp0 ixfrcr = Inr sp \<longrightarrow>
            ixfr_create_perform ixfrcr z fs mem =
              (Inl DnameTooLong, ixfrcr\<lparr>new_serial := zone_get_current_serial z\<rparr>,
               Some (ixfr_store_free
                 (ixfr_store_start z mem (old_serial ixfrcr) (zone_get_current_serial z))))) \<and>
         (\<forall>fs' c z' mem' sp2 sp3 e store1.
            fs' (file_name c) = Some sp2 \<and> read_spool_header sp2 c = Inr sp3 \<and>
            ixfr_create_walk_zone sp3 (c\<lparr>new_serial := zone_get_current_serial z'\<rparr>)
              (ixfr_store_start z' mem' (old_serial c) (zone_get_current_serial z')) z'
              = (Inl e, store1) \<longrightarrow>
            (\<exists>c' store2. ixfr_create_perform c z' fs' mem' = (Inl e, c', Some store2) \<and>
                          freed store2))"
proof (intro conjI impI allI)
  from assms show rd: "read_spool_dname sp buf (MAXDOMAINLEN + 1) = Inl DnameTooLong"
    by (rule read_spool_dname_too_long)
  from assms show hd: "read_spool_header sp ixfrcr = Inl DnameTooLong"
    by (simp add: read_spool_header_def read_spool_dname_too_long)
  { assume "fs (file_name ixfrcr) = Some sp"
    with hd show "ixfr_create_perform ixfrcr z fs mem = (Inl DnameTooLong, ixfrcr, None)"
      by (simp add: ixfr_create_perform_def) }
  { assume a: "spool it = sp \<and> \<not> eof it \<and> (\<not> read_first it \<or> is_processed it)"
    with assms have rs: "read_spool_u16 (spool it) = Some (len, sp1)" by simp
    from rs assms(2) a have nx: "spool_dname_iter_next it = Inl DnameTooLong"
      by (intro iter_next_too_long[of it len sp1]) simp_all
    then show "spool_dname_iter_next it = Inl DnameTooLong" .
    from a nx show bd: "process_spool_before_domain store d it = (Inl DnameTooLong, store)"
      by (subst process_spool_before_domain.simps) simp
    then show "process_spool_for_domain store z d it = (Inl DnameTooLong, store)"
      by (simp add: process_spool_for_domain_def)
    from a nx show "process_spool_remaining store it = (Inl DnameTooLong, store)"
      by (subst process_spool_remaining.simps) simp
    from rs assms(2) a show "walk_zone_rest store z ds it = (Inl DnameTooLong, store)"
      by (intro walk_zone_rest_too_long[of it len sp1]) simp_all }
  { assume a: "fs (file_name ixfrcr) = Some sp0 \<and> read_spool_header sp0 ixfrcr = Inr sp"
    let ?c = "ixfrcr\<lparr>new_serial := zone_get_current_serial z\<rparr>"
    let ?st = "ixfr_store_start z mem (old_serial ixfrcr) (zone_get_current_serial z)"
    let ?it = "spool_dname_iter_init sp (file_name ?c)"
    from assms have "walk_zone_rest ?st z (zone_walk z) ?it = (Inl DnameTooLong, ?st)"
      by (intro walk_zone_rest_too_long[of ?it len sp1]) (simp_all add: spool_dname_iter_init_def)
    then have "ixfr_create_walk_zone sp ?c ?st z = (Inl DnameTooLong, ?st)"
      by (simp add: ixfr_create_walk_zone_def)
    with a show "ixfr_create_perform ixfrcr z fs mem =
        (Inl DnameTooLong, ?c, Some (ixfr_store_free ?st))"
      by (simp add: ixfr_create_perform_def Let_def) }
  { fix fs' c z' mem' sp2 sp3 e store1
    assume "fs' (file_name c) = Some sp2 \<and> read_spool_header sp2 c = Inr sp3 \<and>
            ixfr_create_walk_zone sp3 (c\<lparr>new_serial := zone_get_current_serial z'\<rparr>)
              (ixfr_store_start z' mem' (old_serial c) (zone_get_current_serial z')) z'
              = (Inl e, store1)"
    then have "ixfr_create_perform c z' fs' mem' =
           (Inl e, c\<lparr>new_serial := zone_get_current_serial z'\<rparr>, Some (ixfr_store_free store1))"
      by (simp add: ixfr_create_perform_def Let_def)
    then show "\<exists>c' store2. ixfr_create_perform c z' fs' mem' = (Inl e, c', Some store2) \<and>
                          freed store2"
      by (simp add: ixfr_store_free_def) }
qed

subsection \<open>Evaluating the code on the example zones\<close>

lemmas writer_defs = spool_zone_to_file_def spool_domains_def spool_dname_def spool_u16_def
  spool_u32_def fwrite_def u16_bytes_def u32_bytes_def spool_rrset_def spool_rr_data_def
  rr_rdatalen_uncompressed_def domain_count_rrsets_def zone_walk_def atom_bytes_def Let_def
  ixfr_create_start_def create_ixfr_spool_name_def zone_get_current_serial_def

lemmas reader_defs = read_spool_header_def read_spool_dname_def read_spool_u16_def
  read_spool_u32_def fread_def memcmp_def zone_name_len_def MAXDOMAINLEN_def

lemmas store_defs = ixfr_store_start_def ixfr_store_delrr_uncompressed_def
  ixfr_store_addrr_rdatas_def ixfr_store_free_def

lemmas name_defs = dname_make_def dname_compare_def name_labels_def labels_wire_def
  lower_octet_def

lemmas walk_defs = ixfr_create_perform_def ixfr_create_walk_zone_def walk_zone_rest_def
  zone_get_current_serial_def
  spool_dname_iter_init_def spool_dname_iter_next_def spool_dname_iter_read_def
  process_spool_for_domain_def process_spool_before_domain.simps process_spool_remaining.simps
  process_domain_del_RRs_def domain_del_loop.simps process_domain_add_RRs_def
  process_diff_domain_def diff_domain_loop.simps process_marktypes_def process_add_rrset_def
  process_spool_delrrset_def process_spool_delrrset_loop.simps process_diff_rrset_def
  diff_rrset_spool_loop.simps diff_rrset_zone_loop.simps rrset_find_rdata_def
  find_rdata_loop.simps rdata_match_def domain_find_rrset_def rrset_rrtype_def
  domain_count_rrsets_def zone_walk_def atom_bytes_def Let_def

lemma start_old_zone:
  "ixfr_create_start ex_old_zone ''zone'' ''1'' True True True True no_files =
     (Some ex_ctx, no_files(''zone.spoolzone.1'' := Some ex_old_spool))"
  by (simp add: writer_defs ex_apex_def ex_ctx_def no_files_def
      ex_old_zone_def ex_soa1_def ex_old_spool_def)

lemma start_gap_zone:
  "ixfr_create_start ex_gap_zone ''zone'' ''1'' True True True True no_files =
     (Some ex_ctx, no_files(''zone.spoolzone.1'' := Some ex_gap_spool))"
  by (simp add: writer_defs ex_apex_def ex_ctx_def no_files_def
      ex_gap_zone_def ex_soa1_def ex_gap_spool_def)

lemma perform_old_new:
  "ixfr_create_perform ex_ctx ex_new_zone (no_files(''zone.spoolzone.1'' := Some ex_old_spool)) 10 =
     (Inr (), ex_ctx\<lparr>new_serial := 2\<rparr>,
      Some \<lparr>store_old_serial = 1, store_new_serial = 2,
            ops = [DelRR ex_apex 6 1 3600 [1], AddRR ex_apex 6 1 3600 [Data [2]]],
            room = 8, freed = True\<rparr>)"
  by (simp add: walk_defs reader_defs store_defs name_defs ex_apex_def ex_ctx_def no_files_def
      ex_new_zone_def ex_sub_def ex_soa2_def ex_a_def ex_old_spool_def)

lemma perform_out_of_memory:
  "ixfr_create_perform ex_ctx ex_new_zone (no_files(''zone.spoolzone.1'' := Some ex_old_spool)) 0 =
     (Inl OutOfMemory, ex_ctx\<lparr>new_serial := 2\<rparr>,
      Some \<lparr>store_old_serial = 1, store_new_serial = 2, ops = [], room = 0, freed = True\<rparr>)"
  by (simp add: walk_defs reader_defs store_defs name_defs ex_apex_def ex_ctx_def no_files_def
      ex_new_zone_def ex_sub_def ex_soa2_def ex_a_def ex_old_spool_def)

lemma perform_old_bare:
  "ixfr_create_perform ex_ctx ex_bare_zone (no_files(''zone.spoolzone.1'' := Some ex_old_spool)) 10 =
     (Inr (), ex_ctx\<lparr>new_serial := 2\<rparr>,
      Some \<lparr>store_old_serial = 1, store_new_serial = 2,
            ops = [DelRR ex_apex 6 1 3600 [1]], room = 9, freed = True\<rparr>)"
  by (simp add: walk_defs reader_defs store_defs name_defs ex_apex_def ex_ctx_def no_files_def
      ex_bare_zone_def ex_old_spool_def)

lemma perform_gap_bare:
  "ixfr_create_perform ex_ctx ex_bare_zone (no_files(''zone.spoolzone.1'' := Some ex_gap_spool)) 10 =
     (Inl ReadError, ex_ctx\<lparr>new_serial := 2\<rparr>,
      Some \<lparr>store_old_serial = 1, store_new_serial = 2,
            ops = [DelRR ex_apex 6 1 3600 [1]], room = 9, freed = True\<rparr>)"
  by (simp add: walk_defs reader_defs store_defs name_defs ex_apex_def ex_ctx_def no_files_def
      ex_bare_zone_def ex_gap_spool_def)

lemma perform_long_spool:
  "ixfr_create_perform ex_ctx ex_bare_zone (no_files(''zone.spoolzone.1'' := Some ex_long_spool)) 10 =
     (Inr (), ex_ctx\<lparr>new_serial := 2\<rparr>,
      Some \<lparr>store_old_serial = 1, store_new_serial = 2,
            ops = [DelRR (replicate 256 1) 6 1 3600 [9]], room = 9, freed = True\<rparr>)"
  by (simp add: walk_defs reader_defs store_defs name_defs ex_apex_def ex_ctx_def no_files_def
      ex_bare_zone_def ex_long_spool_def)

lemma start_nordata_zone:
  "ixfr_create_start ex_nordata_zone ''zone'' ''1'' True True True True no_files =
     (Some ex_ctx, no_files(''zone.spoolzone.1'' := Some ex_nordata_spool))"
  by (simp add: writer_defs ex_apex_def ex_ctx_def no_files_def
      ex_soa1_def ex_nordata_def ex_nordata_zone_def ex_nordata_spool_def)

lemma perform_nordata_bare:
  "ixfr_create_perform ex_ctx ex_bare_zone (no_files(''zone.spoolzone.1'' := Some ex_nordata_spool)) 10 =
     (Inl ReadError, ex_ctx\<lparr>new_serial := 2\<rparr>,
      Some \<lparr>store_old_serial = 1, store_new_serial = 2,
            ops = [DelRR ex_apex 6 1 3600 [1]], room = 9, freed = True\<rparr>)"
  by (simp add: walk_defs reader_defs store_defs name_defs ex_apex_def ex_ctx_def no_files_def
      ex_bare_zone_def ex_nordata_spool_def)

subsection \<open>The claims on the example zones\<close>

text \<open>
  Claim C1 says that the delete and add operations of the walk turn the old content into
  the new one: (old minus deletes) plus adds equals new. The code does not add a domain
  of the new zone that it reaches after the spool has ended: \<^verbatim>\<open>process_spool_for_domain\<close>
  returns at \<^verbatim>\<open>if(iter->eof) return 1;\<close> before it looks at the domain. For the old zone
  with the SOA at \<^verbatim>\<open>a.\<close> and the new zone with a changed SOA at \<^verbatim>\<open>a.\<close> and an address
  record at \<^verbatim>\<open>b.a.\<close>, the diff succeeds with the SOA deleted and the new SOA added, and
  nothing for \<^verbatim>\<open>b.a.\<close>, which is in the new content and not in the old: as multisets,
  old minus deletes plus adds is not new.
\<close>

theorem walk_skips_domain_after_spool_end:
  "ixfr_create_start ex_old_zone ''zone'' ''1'' True True True True no_files =
     (Some ex_ctx, no_files(''zone.spoolzone.1'' := Some ex_old_spool)) \<and>
   ixfr_create_perform ex_ctx ex_new_zone (no_files(''zone.spoolzone.1'' := Some ex_old_spool)) 10 =
     (Inr (), ex_ctx\<lparr>new_serial := 2\<rparr>,
      Some \<lparr>store_old_serial = 1, store_new_serial = 2,
            ops = [DelRR ex_apex 6 1 3600 [1], AddRR ex_apex 6 1 3600 [Data [2]]],
            room = 8, freed = True\<rparr>) \<and>
   spec_zone_rrs ex_old_zone = [(ex_apex, 6, 1, 3600, [1])] \<and>
   spec_zone_rrs ex_new_zone = [(ex_apex, 6, 1, 3600, [2]), (ex_sub, 1, 1, 300, [1, 2, 3, 4])] \<and>
   spec_deletes [DelRR ex_apex 6 1 3600 [1], AddRR ex_apex 6 1 3600 [Data [2]]] =
     [(ex_apex, 6, 1, 3600, [1])] \<and>
   spec_adds [DelRR ex_apex 6 1 3600 [1], AddRR ex_apex 6 1 3600 [Data [2]]] =
     [(ex_apex, 6, 1, 3600, [2])] \<and>
   mset (spec_zone_rrs ex_old_zone)
     - mset (spec_deletes [DelRR ex_apex 6 1 3600 [1], AddRR ex_apex 6 1 3600 [Data [2]]])
     + mset (spec_adds [DelRR ex_apex 6 1 3600 [1], AddRR ex_apex 6 1 3600 [Data [2]]])
     \<noteq> mset (spec_zone_rrs ex_new_zone)"
  by (simp add: start_old_zone perform_old_new)
    (simp add: spec_zone_rrs_def spec_domain_rrs_def spec_rr_def zone_walk_def atom_bytes_def
      ex_apex_def ex_ctx_def no_files_def
      ex_old_zone_def ex_new_zone_def ex_sub_def ex_soa1_def ex_soa2_def ex_a_def)

text \<open>
  Claim C6 says that the count written after an owner is the number of RR-sets of the
  zone at the owner and also the number of RR-set blocks that follow. \<^verbatim>\<open>spool_domains\<close>
  writes the count of \<^verbatim>\<open>domain_count_rrsets\<close>, and \<^verbatim>\<open>spool_rrset\<close> writes nothing for an
  RR-set without RRs. For the apex with the SOA RR-set and an empty RR-set, the count
  is 2 and one block follows it, then the end marker.
\<close>

theorem spool_count_exceeds_blocks:
  "domain_count_rrsets (apex ex_gap_zone) ex_gap_zone = 2 \<and>
   spool_domains [] ex_gap_zone =
     Some (u16_bytes 3 @ ex_apex @ u32_bytes 2 @
           (u16_bytes 6 @ u16_bytes 1 @ u16_bytes 1 @ (u32_bytes 3600 @ u16_bytes 1 @ [1])) @
           u16_bytes 0)"
  by (simp add: writer_defs ex_apex_def ex_ctx_def no_files_def
      ex_gap_zone_def ex_soa1_def)

text \<open>
  Claim C2 says that, for every zone, reading back what was written gives the apex, the
  serial and every RR of the zone. Reading back is the diff against a zone that has
  nothing: the header check compares apex and serial, and every RR read becomes a
  deletion. For the old example zone this returns its one RR. For the zone with an
  empty RR-set the count on the spool promises a block that is not there, and the
  reader runs into the end of the file. For the zone with a record without rdata the
  writer emits the length 0 and the reader calls \<^verbatim>\<open>fread\<close> with size 0, which returns 0:
  the reader fails there, too, where \<^verbatim>\<open>read_spool_dname\<close> guards its \<^verbatim>\<open>fread\<close> with
  \<^verbatim>\<open>if(len > 0)\<close>.
\<close>

theorem spool_read_back_fails:
  "ixfr_create_start ex_old_zone ''zone'' ''1'' True True True True no_files =
     (Some ex_ctx, no_files(''zone.spoolzone.1'' := Some ex_old_spool)) \<and>
   ixfr_create_perform ex_ctx ex_bare_zone (no_files(''zone.spoolzone.1'' := Some ex_old_spool)) 10 =
     (Inr (), ex_ctx\<lparr>new_serial := 2\<rparr>,
      Some \<lparr>store_old_serial = 1, store_new_serial = 2,
            ops = [DelRR ex_apex 6 1 3600 [1]], room = 9, freed = True\<rparr>) \<and>
   spec_deletes [DelRR ex_apex 6 1 3600 [1]] = spec_zone_rrs ex_old_zone \<and>
   ixfr_create_start ex_gap_zone ''zone'' ''1'' True True True True no_files =
     (Some ex_ctx, no_files(''zone.spoolzone.1'' := Some ex_gap_spool)) \<and>
   spec_zone_rrs ex_gap_zone = [(ex_apex, 6, 1, 3600, [1])] \<and>
   fst (ixfr_create_perform ex_ctx ex_bare_zone
          (no_files(''zone.spoolzone.1'' := Some ex_gap_spool)) 10) = Inl ReadError \<and>
   ixfr_create_start ex_nordata_zone ''zone'' ''1'' True True True True no_files =
     (Some ex_ctx, no_files(''zone.spoolzone.1'' := Some ex_nordata_spool)) \<and>
   spec_zone_rrs ex_nordata_zone = [(ex_apex, 6, 1, 3600, [1]), (ex_apex, 42, 1, 60, [])] \<and>
   fst (ixfr_create_perform ex_ctx ex_bare_zone
          (no_files(''zone.spoolzone.1'' := Some ex_nordata_spool)) 10) = Inl ReadError"
  by (simp add: start_old_zone perform_old_bare start_gap_zone perform_gap_bare
      start_nordata_zone perform_nordata_bare)
    (simp add: spec_zone_rrs_def spec_domain_rrs_def spec_rr_def zone_walk_def atom_bytes_def
      ex_apex_def ex_ctx_def no_files_def
      ex_old_zone_def ex_gap_zone_def ex_soa1_def ex_nordata_def ex_nordata_zone_def)

text \<open>
  Claim C7 as stated: a name whose length field exceeds 255 makes the read fail and the
  diff abort. A length field of 256 fits the buffer of \<^verbatim>\<open>MAXDOMAINLEN+1\<close> octets: the
  read succeeds, and in the loop over the remaining names, which does not call
  \<^verbatim>\<open>dname_make\<close>, the diff goes on, deletes the RR under the owner of 256 octets and
  succeeds.
\<close>

theorem dname_of_256_octets_is_read:
  "read_spool_u16 (drop 9 ex_long_spool) = Some (256, drop 11 ex_long_spool) \<and>
   (255 :: nat) < unat (256 :: u16) \<and>
   read_spool_dname (drop 9 ex_long_spool) (replicate (MAXDOMAINLEN + 1) 0) (MAXDOMAINLEN + 1) =
     Inr (replicate 256 1, 256, drop 267 ex_long_spool) \<and>
   ixfr_create_perform ex_ctx ex_bare_zone (no_files(''zone.spoolzone.1'' := Some ex_long_spool)) 10 =
     (Inr (), ex_ctx\<lparr>new_serial := 2\<rparr>,
      Some \<lparr>store_old_serial = 1, store_new_serial = 2,
            ops = [DelRR (replicate 256 1) 6 1 3600 [9]], room = 9, freed = True\<rparr>)"
  by (simp add: perform_long_spool) (simp add: reader_defs ex_long_spool_def)

subsection \<open>Instances of the general theorems\<close>

theorem perform_failure_destroys_session_witness:
  "ixfr_create_perform ex_ctx ex_new_zone (no_files(''zone.spoolzone.1'' := Some ex_old_spool)) 0 =
     (Inl OutOfMemory, ex_ctx\<lparr>new_serial := 2\<rparr>,
      Some \<lparr>store_old_serial = 1, store_new_serial = 2, ops = [], room = 0, freed = True\<rparr>) \<and>
   (case Some \<lparr>store_old_serial = 1, store_new_serial = 2, ops = [], room = 0, freed = True\<rparr> of
      None \<Rightarrow> True | Some store \<Rightarrow> freed store)"
  using perform_failure_destroys_session[OF perform_out_of_memory] perform_out_of_memory
  by blast

theorem perform_rejects_header_mismatch_witness:
  "read_spool_dname ex_old_spool (replicate (MAXDOMAINLEN + 1) 0) (MAXDOMAINLEN + 1) =
     Inr ([1, 97, 0] @ replicate 253 0, 3, drop 5 ex_old_spool) \<and>
   read_spool_u32 (drop 5 ex_old_spool) = Some (1, drop 9 ex_old_spool) \<and>
   (1 :: u32) \<noteq> old_serial (ex_ctx\<lparr>old_serial := 5\<rparr>) \<and>
   ixfr_create_perform (ex_ctx\<lparr>old_serial := 5\<rparr>) ex_new_zone
       (no_files(''zone.spoolzone.1'' := Some ex_old_spool)) 10 =
     (Inl SerialMismatch, ex_ctx\<lparr>old_serial := 5\<rparr>, None)"
proof -
  let ?fs = "no_files(''zone.spoolzone.1'' := Some ex_old_spool)"
  let ?c = "ex_ctx\<lparr>old_serial := 5\<rparr>"
  have h1: "?fs (file_name ?c) = Some ex_old_spool"
    by (simp add: ex_ctx_def)
  have h2: "read_spool_dname ex_old_spool (replicate (MAXDOMAINLEN + 1) 0) (MAXDOMAINLEN + 1) =
     Inr ([1, 97, 0] @ replicate 253 0, 3, drop 5 ex_old_spool)"
    by (simp add: reader_defs ex_old_spool_def)
  have h3: "read_spool_u32 (drop 5 ex_old_spool) = Some (1, drop 9 ex_old_spool)"
    by (simp add: reader_defs ex_old_spool_def)
  have h4: "take 3 ([1, 97, 0] @ replicate 253 0) \<noteq> zone_name ?c \<or> (1 :: u32) \<noteq> old_serial ?c"
    by simp
  have h5: "take 3 ([1, 97, 0] @ replicate 253 (0 :: u8)) = zone_name ?c"
    by (simp add: ex_ctx_def ex_apex_def)
  from perform_rejects_header_mismatch[where fs = ?fs and ixfrcr = ?c and z = ex_new_zone
      and mem = 10, OF h1 h2 h3 h4] h5
  have "ixfr_create_perform ?c ex_new_zone ?fs 10 = (Inl SerialMismatch, ?c, None)"
    by simp
  with h2 h3 show ?thesis by simp
qed

theorem spool_dname_iter_next_idle_witness:
  "spool_dname_iter_next ex_iter_eof = Inr ex_iter_eof \<and>
   iter_next_times 3 ex_iter_eof = Inr ex_iter_eof \<and>
   spool_dname_iter_next ex_iter_buffered = Inr ex_iter_buffered \<and>
   iter_next_times 3 ex_iter_buffered = Inr ex_iter_buffered \<and>
   (\<exists>it'. spool_dname_iter_next ex_iter_done = Inr it' \<and> eof it' \<and> read_first it' \<and>
          dname_len it' = 0 \<and> dname it' = dname ex_iter_done \<and> spool it' = [] \<and>
          iter_next_times 3 it' = Inr it')"
proof -
  have "eof ex_iter_eof" and "read_first ex_iter_buffered \<and> \<not> is_processed ex_iter_buffered"
    and "\<not> eof ex_iter_done \<and> (\<not> read_first ex_iter_done \<or> is_processed ex_iter_done) \<and>
         read_spool_u16 (spool ex_iter_done) = Some (0, [])"
    by (simp_all add: ex_iter_eof_def ex_iter_buffered_def ex_iter_done_def reader_defs)
  with spool_dname_iter_next_idle[of ex_iter_eof 3 "[]"]
    spool_dname_iter_next_idle[of ex_iter_buffered 3 "[]"]
    spool_dname_iter_next_idle[of ex_iter_done 3 "[]"]
  show ?thesis by blast
qed

theorem oversize_dname_aborts_diff_witness:
  "read_spool_u16 [1, 1] = Some (257, []) \<and>
   MAXDOMAINLEN + 1 < unat (257 :: u16) \<and>
   read_spool_dname [1, 1] (replicate 256 0) (MAXDOMAINLEN + 1) = Inl DnameTooLong \<and>
   read_spool_header [1, 1] ex_ctx = Inl DnameTooLong \<and>
   ixfr_create_perform ex_ctx ex_new_zone (no_files(''zone.spoolzone.1'' := Some [1, 1])) 10 =
     (Inl DnameTooLong, ex_ctx, None) \<and>
   spool_dname_iter_next (spool_dname_iter_init [1, 1] ''zone.spoolzone.1'') = Inl DnameTooLong \<and>
   process_spool_for_domain (ixfr_store_start ex_new_zone 10 1 2) ex_new_zone (apex ex_new_zone)
       (spool_dname_iter_init [1, 1] ''zone.spoolzone.1'') =
     (Inl DnameTooLong, ixfr_store_start ex_new_zone 10 1 2) \<and>
   process_spool_remaining (ixfr_store_start ex_new_zone 10 1 2)
       (spool_dname_iter_init [1, 1] ''zone.spoolzone.1'') =
     (Inl DnameTooLong, ixfr_store_start ex_new_zone 10 1 2)"
proof -
  let ?it = "spool_dname_iter_init [1, 1] ''zone.spoolzone.1''"
  let ?fs = "no_files(''zone.spoolzone.1'' := Some [1, 1])"
  have h1: "read_spool_u16 [1, 1] = Some (257, [])"
    by (simp add: reader_defs)
  have h2: "MAXDOMAINLEN + 1 < unat (257 :: u16)"
    by (simp add: MAXDOMAINLEN_def)
  have h3: "?fs (file_name ex_ctx) = Some [1, 1]"
    by (simp add: ex_ctx_def)
  have h4: "spool ?it = [1, 1] \<and> \<not> eof ?it \<and> (\<not> read_first ?it \<or> is_processed ?it)"
    by (simp add: spool_dname_iter_init_def)
  from oversize_dname_aborts_diff[OF h1 h2, where buf = "replicate 256 0" and ixfrcr = ex_ctx
      and fs = ?fs and z = ex_new_zone and mem = 10 and it = ?it
      and store = "ixfr_store_start ex_new_zone 10 1 2" and d = "apex ex_new_zone"] h1 h2 h3 h4
  show ?thesis by blast
qed

end
